theory Spec2Isabelle
  imports Main
begin

unbundle bit_operations_syntax

section \<open>The file system underneath the program\<close>

text \<open>
  The detector (\<^verbatim>\<open>src/detector.ts\<close>) and the converter (\<^verbatim>\<open>src/converter.ts\<close>) act on
  the disk through \<^verbatim>\<open>node:fs\<close> and on path strings through \<^verbatim>\<open>node:path\<close>. Both are
  libraries, so they are modelled here once and the program's own functions are then
  written over that interface, call by call.

  \<^item> The disk is a tree of \<open>node\<close>s: regular files (mode bits and bytes), directories
    (a read-permission flag and named children, in listing order) and symbolic links
    (the text of the link: absolute or relative, and its components).
  \<^item> A \<open>path\<close> is the list of components of an absolute path, the root being \<open>[]\<close>.
    The strings the program holds are absolute; splitting at the separator is the
    library's business. A link text keeps the flag that tells absolute from relative.
  \<^item> Every call that can throw returns \<open>exn + 'a\<close>; \<open>Inl\<close> is the exception. The
    exceptions are the error codes of the system calls, and the parse error of the
    YAML library.
\<close>

type_synonym path = "string list"

type_synonym link_text = "bool \<times> string list"

datatype exn =
  ENOENT | ENOTDIR | EEXIST | ELOOP | EACCES | EISDIR | ENOTEMPTY | EINVAL | EPERM
  | ENAMETOOLONG | YAMLParseError

datatype kind = FileK | DirK | LinkK

datatype node =
    File nat string
  | Dir bool "(string \<times> node) list"
  | Link bool "string list"

record stats =
  st_kind :: kind
  st_size :: nat
  st_mode :: nat

fun kind_of :: "node \<Rightarrow> kind" where
  "kind_of (File m c) = FileK"
| "kind_of (Dir r es) = DirK"
| "kind_of (Link a t) = LinkK"

text \<open>
  What \<^verbatim>\<open>lstat\<close> reports of a node. Only the size of a regular file (its number of
  bytes) and the mode of a regular file are read by the program; the other two kinds
  get fixed values.
\<close>

fun stats_of :: "node \<Rightarrow> stats" where
  "stats_of (File m c) = \<lparr>st_kind = FileK, st_size = length c, st_mode = m\<rparr>"
| "stats_of (Dir r es) = \<lparr>st_kind = DirK, st_size = 0, st_mode = 493\<rparr>"
| "stats_of (Link a t) = \<lparr>st_kind = LinkK, st_size = 0, st_mode = 511\<rparr>"

definition valid_name :: "string \<Rightarrow> bool" where
  "valid_name n \<longleftrightarrow> n \<noteq> [] \<and> n \<noteq> ''.'' \<and> n \<noteq> ''..'' \<and> CHR ''/'' \<notin> set n"

subsection \<open>Paths (\<^verbatim>\<open>node:path\<close>, POSIX flavour)\<close>

text \<open>Splitting a string at the separator.\<close>

fun segments_acc :: "string \<Rightarrow> string \<Rightarrow> string list" where
  "segments_acc cur [] = [cur]"
| "segments_acc cur (c # cs) =
     (if c = CHR ''/'' then cur # segments_acc [] cs else segments_acc (cur @ [c]) cs)"

definition segments :: "string \<Rightarrow> string list" where
  "segments s = segments_acc [] s"

text \<open>
  Lexical normalisation, as \<^verbatim>\<open>path.normalize\<close> does it for an absolute path: empty
  components and \<^verbatim>\<open>.\<close> vanish, \<^verbatim>\<open>..\<close> removes the component before it and is dropped
  at the root.
\<close>

fun normalize_from :: "path \<Rightarrow> string list \<Rightarrow> path" where
  "normalize_from acc [] = acc"
| "normalize_from acc (c # cs) =
     (if c = [] \<or> c = ''.'' then normalize_from acc cs
      else if c = ''..'' then normalize_from (butlast acc) cs
      else normalize_from (acc @ [c]) cs)"

definition path_normalize :: "path \<Rightarrow> path" where
  "path_normalize p = normalize_from [] p"

text \<open>\<^verbatim>\<open>path.join(dir, s)\<close>, \<open>s\<close> a string such as an entry name.\<close>

definition path_join :: "path \<Rightarrow> string \<Rightarrow> path" where
  "path_join dir s = path_normalize (dir @ segments s)"

text \<open>\<^verbatim>\<open>path.dirname\<close> and \<^verbatim>\<open>path.basename\<close>; neither normalises.\<close>

definition path_dirname :: "path \<Rightarrow> path" where
  "path_dirname p = butlast p"

definition path_basename :: "path \<Rightarrow> string" where
  "path_basename p = (if p = [] then [] else last p)"

text \<open>\<^verbatim>\<open>path.resolve(p)\<close> of an absolute path, and \<^verbatim>\<open>path.resolve(base, text)\<close>.\<close>

definition path_resolve :: "path \<Rightarrow> path" where
  "path_resolve p = path_normalize p"

definition path_resolve2 :: "path \<Rightarrow> link_text \<Rightarrow> path" where
  "path_resolve2 base t =
     (if fst t then path_normalize (snd t)
      else normalize_from (path_normalize base) (snd t))"

text \<open>
  \<^verbatim>\<open>path.relative(from, to)\<close>: both are resolved, their common prefix is dropped, and
  the result climbs out of what is left of \<open>from\<close> and descends into what is left of
  \<open>to\<close>. The result is a relative text; it is empty when both are the same path.
\<close>

fun strip_common :: "path \<Rightarrow> path \<Rightarrow> path \<times> path" where
  "strip_common (a # as) (b # bs) =
     (if a = b then strip_common as bs else (a # as, b # bs))"
| "strip_common as bs = (as, bs)"

definition path_relative :: "path \<Rightarrow> path \<Rightarrow> link_text" where
  "path_relative from to =
     (case strip_common (path_resolve from) (path_resolve to) of
        (up, down) \<Rightarrow> (False, replicate (length up) ''..'' @ down))"

subsection \<open>Looking paths up\<close>

text \<open>The node at a physical position: no link is followed.\<close>

fun get :: "node \<Rightarrow> path \<Rightarrow> node option" where
  "get n [] = Some n"
| "get (Dir r es) (c # cs) =
     (case map_of es c of None \<Rightarrow> None | Some ch \<Rightarrow> get ch cs)"
| "get (File m c') (c # cs) = None"
| "get (Link a t) (c # cs) = None"

text \<open>
  The kernel's path walk. \<open>cur\<close> is the physical position reached so far, the last
  argument what is left to walk. A symbolic link met on the way is replaced by its
  text; the last component is followed or not (\<^verbatim>\<open>stat\<close> against \<^verbatim>\<open>lstat\<close>). At most
  \<open>symloop_max\<close> links are followed in one walk, then the walk fails with \<^verbatim>\<open>ELOOP\<close>.
\<close>

definition symloop_max :: nat where
  "symloop_max = 40"

fun walk :: "bool \<Rightarrow> nat \<Rightarrow> node \<Rightarrow> path \<Rightarrow> string list \<Rightarrow> exn + path" where
  "walk follow fuel root cur [] = Inr cur"
| "walk follow fuel root cur (c # cs) =
     (case get root cur of
        None \<Rightarrow> Inl ENOENT
      | Some (File m c') \<Rightarrow> Inl ENOTDIR
      | Some (Link a t) \<Rightarrow> Inl ENOTDIR
      | Some (Dir r es) \<Rightarrow>
          if c = [] \<or> c = ''.'' then walk follow fuel root cur cs
          else if c = ''..'' then walk follow fuel root (butlast cur) cs
          else (case map_of es c of
                  None \<Rightarrow> Inl ENOENT
                | Some (Link a t) \<Rightarrow>
                    if cs = [] \<and> \<not> follow then Inr (cur @ [c])
                    else if fuel = 0 then Inl ELOOP
                    else walk follow (fuel - 1) root (if a then [] else cur) (t @ cs)
                | Some (File m c') \<Rightarrow> walk follow fuel root (cur @ [c]) cs
                | Some (Dir r' es') \<Rightarrow> walk follow fuel root (cur @ [c]) cs))"

definition resolve :: "bool \<Rightarrow> node \<Rightarrow> path \<Rightarrow> exn + path" where
  "resolve follow root p = walk follow symloop_max root [] p"

definition node_at :: "bool \<Rightarrow> node \<Rightarrow> path \<Rightarrow> exn + node" where
  "node_at follow root p =
     (case resolve follow root p of
        Inl e \<Rightarrow> Inl e
      | Inr q \<Rightarrow> (case get root q of None \<Rightarrow> Inl ENOENT | Some n \<Rightarrow> Inr n))"

subsection \<open>Reading (\<^verbatim>\<open>node:fs\<close>)\<close>

definition lstatSync :: "node \<Rightarrow> path \<Rightarrow> exn + stats" where
  "lstatSync root p =
     (case node_at False root p of Inl e \<Rightarrow> Inl e | Inr n \<Rightarrow> Inr (stats_of n))"

definition statSync :: "node \<Rightarrow> path \<Rightarrow> exn + stats" where
  "statSync root p =
     (case node_at True root p of Inl e \<Rightarrow> Inl e | Inr n \<Rightarrow> Inr (stats_of n))"

text \<open>\<^verbatim>\<open>fs.existsSync\<close> follows links and turns every failure into \<^verbatim>\<open>false\<close>.\<close>

definition existsSync :: "node \<Rightarrow> path \<Rightarrow> bool" where
  "existsSync root p = (case statSync root p of Inl e \<Rightarrow> False | Inr s \<Rightarrow> True)"

text \<open>
  The listing of a directory: every name once, bound to the child a lookup of that name
  finds, and never \<^verbatim>\<open>.\<close>, \<^verbatim>\<open>..\<close>, an empty name or a name with a separator.
\<close>

fun listing :: "(string \<times> node) list \<Rightarrow> (string \<times> node) list" where
  "listing [] = []"
| "listing ((n, ch) # es) =
     (if valid_name n then (n, ch) # listing (filter (\<lambda>e. fst e \<noteq> n) es)
      else listing (filter (\<lambda>e. fst e \<noteq> n) es))"

text \<open>
  \<^verbatim>\<open>fs.readdirSync(p, { withFileTypes: true })\<close>: the path is followed to a directory,
  which must be readable; every entry comes with the kind of the entry itself (a link
  is reported as a link, whatever it points to).
\<close>

definition readdirSync :: "node \<Rightarrow> path \<Rightarrow> exn + (string \<times> kind) list" where
  "readdirSync root p =
     (case node_at True root p of
        Inl e \<Rightarrow> Inl e
      | Inr (File m c) \<Rightarrow> Inl ENOTDIR
      | Inr (Link a t) \<Rightarrow> Inl ENOTDIR
      | Inr (Dir r es) \<Rightarrow>
          if r then Inr (map (\<lambda>e. (fst e, kind_of (snd e))) (listing es))
          else Inl EACCES)"

definition readlinkSync :: "node \<Rightarrow> path \<Rightarrow> exn + link_text" where
  "readlinkSync root p =
     (case node_at False root p of
        Inl e \<Rightarrow> Inl e
      | Inr (File m c) \<Rightarrow> Inl EINVAL
      | Inr (Dir r es) \<Rightarrow> Inl EINVAL
      | Inr (Link a t) \<Rightarrow> Inr (a, t))"

definition realpathSync :: "node \<Rightarrow> path \<Rightarrow> exn + path" where
  "realpathSync root p = resolve True root p"

definition readFileSync :: "node \<Rightarrow> path \<Rightarrow> exn + string" where
  "readFileSync root p =
     (case node_at True root p of
        Inl e \<Rightarrow> Inl e
      | Inr (File m c) \<Rightarrow> Inr c
      | Inr (Dir r es) \<Rightarrow> Inl EISDIR
      | Inr (Link a t) \<Rightarrow> Inl ELOOP)"

subsection \<open>What an exception prints as\<close>

text \<open>
  The program interpolates a caught exception into a message. Only the error code is
  kept of the text the library prints.
\<close>

fun show_error :: "exn \<Rightarrow> string" where
  "show_error ENOENT = ''Error: ENOENT''"
| "show_error ENOTDIR = ''Error: ENOTDIR''"
| "show_error EEXIST = ''Error: EEXIST''"
| "show_error ELOOP = ''Error: ELOOP''"
| "show_error EACCES = ''Error: EACCES''"
| "show_error EISDIR = ''Error: EISDIR''"
| "show_error ENOTEMPTY = ''Error: ENOTEMPTY''"
| "show_error EINVAL = ''Error: EINVAL''"
| "show_error EPERM = ''Error: EPERM''"
| "show_error ENAMETOOLONG = ''Error: ENAMETOOLONG''"
| "show_error YAMLParseError = ''YAMLParseError''"

section \<open>The detector (\<^verbatim>\<open>src/detector.ts\<close>)\<close>

subsection \<open>Types (\<^verbatim>\<open>src/types.ts\<close>)\<close>

text \<open>
  A value the YAML library can return. \<^verbatim>\<open>SkillFrontmatter\<close> is an interface that the
  compiler does not enforce at run time: whatever \<^verbatim>\<open>yaml.parse\<close> returns is the
  front matter. Numbers are kept as integers.
\<close>

datatype yaml =
    YNull
  | YBool bool
  | YNum int
  | YStr string
  | YSeq "yaml list"
  | YMap "(string \<times> yaml) list"

text \<open>JavaScript's truthiness, which \<^verbatim>\<open>||\<close> tests.\<close>

fun truthy :: "yaml \<Rightarrow> bool" where
  "truthy YNull = False"
| "truthy (YBool b) = b"
| "truthy (YNum i) = (i \<noteq> 0)"
| "truthy (YStr s) = (s \<noteq> [])"
| "truthy (YSeq xs) = True"
| "truthy (YMap kvs) = True"

text \<open>The YAML library is not part of the program: \<^verbatim>\<open>yaml.parse\<close> is a parameter.\<close>

type_synonym yaml_parser = "string \<Rightarrow> exn + yaml"

record DetectedSkill =
  name :: string
  path :: path
  hasSkillMd :: bool
  hasAgentsMd :: bool
  hasRules :: bool
  hasScripts :: bool
  hasTemplates :: bool
  hasReferences :: bool
  sizeKb :: nat
  frontmatter :: yaml
  isSymlink :: bool
  symlinkTarget :: "link_text option"

subsection \<open>\<^verbatim>\<open>parseFrontmatter\<close>\<close>

text \<open>
  The regular expression \<^verbatim>\<open>/^---\\n([\\s\\S]*?)\\n---/\<close>: the content starts with three dashes
  and a line feed; the group is the shortest text after them that is followed by a
  line feed and three dashes.
\<close>

fun before_first :: "string \<Rightarrow> string \<Rightarrow> string \<Rightarrow> string option" where
  "before_first pat acc [] = (if pat = [] then Some acc else None)"
| "before_first pat acc (c # cs) =
     (if take (length pat) (c # cs) = pat then Some acc
      else before_first pat (acc @ [c]) cs)"

definition fence_open :: string where
  "fence_open = [CHR ''-'', CHR ''-'', CHR ''-'', CHR 0x0A]"

definition fence_close :: string where
  "fence_close = [CHR 0x0A, CHR ''-'', CHR ''-'', CHR ''-'']"

definition frontmatter_match :: "string \<Rightarrow> string option" where
  "frontmatter_match content =
     (if take 4 content = fence_open then before_first fence_close [] (drop 4 content)
      else None)"

definition parseFrontmatter :: "yaml_parser \<Rightarrow> string \<Rightarrow> exn + yaml" where
  "parseFrontmatter yaml_parse content =
     (case frontmatter_match content of
        None \<Rightarrow> Inr (YMap [])
      | Some block \<Rightarrow>
          (case yaml_parse block of
             Inl e \<Rightarrow> Inr (YMap [])
           | Inr v \<Rightarrow> Inr (if truthy v then v else YMap [])))"

subsection \<open>\<^verbatim>\<open>countReferences\<close>\<close>

text \<open>
  \<^verbatim>\<open>content.match(re)\<close> with a global expression: the matches are found from left to
  right, each search starting where the last match ended. A matcher gives the length
  of the match that starts at the head of the string, if there is one.
\<close>

fun count_from :: "(string \<Rightarrow> nat option) \<Rightarrow> string \<Rightarrow> nat" where
  "count_from m [] = 0"
| "count_from m (c # cs) =
     (case m (c # cs) of
        None \<Rightarrow> count_from m cs
      | Some n \<Rightarrow> Suc (count_from m (drop (n - 1) cs)))"

text \<open>\<^verbatim>\<open>/\\[\\[[^\\]]+\\]\\]/\<close>\<close>

definition wiki_len :: "string \<Rightarrow> nat option" where
  "wiki_len s =
     (if take 2 s = ''[['' then
        (let run = takeWhile (\<lambda>c. c \<noteq> CHR '']'') (drop 2 s);
             after = drop (length run) (drop 2 s)
         in if run \<noteq> [] \<and> take 2 after = '']]'' then Some (length run + 4) else None)
      else None)"

text \<open>\<^verbatim>\<open>/\\[([^\\]]+)\\]\\(([^)]+)\\)/\<close>\<close>

definition markdown_len :: "string \<Rightarrow> nat option" where
  "markdown_len s =
     (if take 1 s = ''['' then
        (let label = takeWhile (\<lambda>c. c \<noteq> CHR '']'') (drop 1 s);
             after = drop (length label) (drop 1 s)
         in if label \<noteq> [] \<and> take 2 after = '']('' then
              (let url = takeWhile (\<lambda>c. c \<noteq> CHR '')'') (drop 2 after);
                   rest = drop (length url) (drop 2 after)
               in if url \<noteq> [] \<and> take 1 rest = '')''
                  then Some (length label + length url + 4) else None)
            else None)
      else None)"

definition countReferences :: "string \<Rightarrow> nat" where
  "countReferences content =
     (let wikiLinks = count_from wiki_len content;
          markdownLinks = count_from markdown_len content
      in wikiLinks + markdownLinks)"

subsection \<open>\<^verbatim>\<open>getDirectorySizeKb\<close>\<close>

text \<open>
  The inner \<^verbatim>\<open>walkDir\<close> adds to the variable \<^verbatim>\<open>totalSize\<close> of the enclosing call; here
  it takes the total and returns it. Its whole body is inside \<^verbatim>\<open>try { } catch {}\<close>: an
  exception ends the loop of that call and keeps what was added before it. The pair
  threaded through the loop is the total and whether the loop is still running.
\<close>

function walkDir :: "node \<Rightarrow> path \<Rightarrow> nat \<Rightarrow> nat" where
  "walkDir root currentPath totalSize =
     (case readdirSync root currentPath of
        Inl e \<Rightarrow> totalSize
      | Inr entries \<Rightarrow>
          fst (fold
            (\<lambda>entry acc.
               if \<not> snd acc then acc
               else if snd entry = DirK
                 then (walkDir root (path_join currentPath (fst entry)) (fst acc), True)
               else if snd entry = FileK
                 then (case statSync root (path_join currentPath (fst entry)) of
                         Inl e \<Rightarrow> (fst acc, False)
                       | Inr st \<Rightarrow> (fst acc + st_size st, True))
               else acc)
            entries (totalSize, True)))"
  by pat_completeness auto

text \<open>
  The recursion ends because the directory that a call lists is strictly inside the
  one its caller listed. The measure is the size of the tree at the path; a path with
  components that normalisation removes is replaced by a normalised one after one call.
\<close>

definition clean :: "string list \<Rightarrow> bool" where
  "clean p \<longleftrightarrow> (\<forall>c \<in> set p. c \<noteq> [] \<and> c \<noteq> ''.'' \<and> c \<noteq> ''..'')"

definition walk_measure :: "node \<Rightarrow> path \<Rightarrow> nat" where
  "walk_measure root cur =
     (if clean cur then
        (case node_at True root cur of Inl e \<Rightarrow> 0 | Inr n \<Rightarrow> size n)
      else Suc (size root))"

text \<open>
  \<^verbatim>\<open>Math.round(totalSize / 1024)\<close>: the total is a sum of whole numbers, exact in a
  double below \<open>2 ^ 53\<close>; division by a power of two is exact, and rounding takes a
  half upwards.
\<close>

definition getDirectorySizeKb :: "node \<Rightarrow> path \<Rightarrow> nat" where
  "getDirectorySizeKb root dirPath = (walkDir root dirPath 0 + 512) div 1024"

subsection \<open>\<^verbatim>\<open>analyzeSkill\<close>\<close>

definition analyzeSkill ::
  "yaml_parser \<Rightarrow> node \<Rightarrow> path \<Rightarrow> exn + DetectedSkill option" where
  "analyzeSkill yaml_parse root skillPath =
     (let nm = path_basename skillPath;
          skillMdPath = path_join skillPath ''SKILL.md''
      in if \<not> existsSync root skillMdPath then Inr None
         else
           (case lstatSync root skillPath of
              Inl e \<Rightarrow> Inl e
            | Inr st \<Rightarrow>
                (let isLink = (st_kind st = LinkK);
                     linkTarget =
                       (if isLink then
                          (case readlinkSync root skillPath of
                             Inl e \<Rightarrow> None
                           | Inr t \<Rightarrow> Some t)
                        else None);
                     md =
                       (case readFileSync root skillMdPath of
                          Inl e \<Rightarrow> ([], YMap [])
                        | Inr c \<Rightarrow>
                            (case parseFrontmatter yaml_parse c of
                               Inl e \<Rightarrow> (c, YMap [])
                             | Inr fm \<Rightarrow> (c, fm)));
                     referenceCount = countReferences (fst md)
                 in Inr (Some
                      \<lparr>name = nm,
                       path = skillPath,
                       hasSkillMd = True,
                       hasAgentsMd = existsSync root (path_join skillPath ''AGENTS.md''),
                       hasRules = existsSync root (path_join skillPath ''rules''),
                       hasScripts = existsSync root (path_join skillPath ''scripts''),
                       hasTemplates = existsSync root (path_join skillPath ''templates''),
                       hasReferences = (referenceCount > 0),
                       sizeKb = getDirectorySizeKb root skillPath,
                       frontmatter = snd md,
                       isSymlink = isLink,
                       symlinkTarget = linkTarget\<rparr>))))"

subsection \<open>\<^verbatim>\<open>detectSkills\<close>\<close>

text \<open>\<^verbatim>\<open>entry.name.startsWith("_")\<close>\<close>

definition startsWith_underscore :: "string \<Rightarrow> bool" where
  "startsWith_underscore s = (take 1 s = ''_'')"

text \<open>
  The inner loop over the entries of a grouping directory. It pushes to the array
  \<^verbatim>\<open>skills\<close> of the enclosing call, and what it pushed stays pushed when an exception
  ends it: the result is the array, and the exception if there was one.
\<close>

fun nestedLoop ::
  "yaml_parser \<Rightarrow> node \<Rightarrow> path \<Rightarrow> string \<Rightarrow> (string \<times> kind) list \<Rightarrow>
   DetectedSkill list \<Rightarrow> exn option \<times> DetectedSkill list" where
  "nestedLoop yaml_parse root skillPath entryName [] skills = (None, skills)"
| "nestedLoop yaml_parse root skillPath entryName (nestedEntry # rest) skills =
     (if snd nestedEntry \<noteq> DirK
        then nestedLoop yaml_parse root skillPath entryName rest skills
      else
        (case analyzeSkill yaml_parse root (path_join skillPath (fst nestedEntry)) of
           Inl e \<Rightarrow> (Some e, skills)
         | Inr None \<Rightarrow> nestedLoop yaml_parse root skillPath entryName rest skills
         | Inr (Some skill) \<Rightarrow>
             nestedLoop yaml_parse root skillPath entryName rest
               (skills @ [skill\<lparr>name := entryName @ ''-'' @ name skill\<rparr>])))"

text \<open>
  The loop over the entries of the root. An exception that no inner \<^verbatim>\<open>try\<close> catches
  leaves the loop and reaches the \<^verbatim>\<open>catch\<close> of \<^verbatim>\<open>Effect.try\<close>.
\<close>

fun detectLoop ::
  "yaml_parser \<Rightarrow> node \<Rightarrow> path \<Rightarrow> (string \<times> kind) list \<Rightarrow> DetectedSkill list \<Rightarrow>
   exn + DetectedSkill list" where
  "detectLoop yaml_parse root dir [] skills = Inr skills"
| "detectLoop yaml_parse root dir (entry # rest) skills =
     (if snd entry \<noteq> DirK \<and> snd entry \<noteq> LinkK
        then detectLoop yaml_parse root dir rest skills
      else if startsWith_underscore (fst entry)
        then detectLoop yaml_parse root dir rest skills
      else
        (let skillPath = path_join dir (fst entry) in
         case (if snd entry = LinkK then realpathSync root skillPath else Inr skillPath) of
           Inl e \<Rightarrow> detectLoop yaml_parse root dir rest skills
         | Inr actualPath \<Rightarrow>
             if existsSync root (path_join actualPath ''SKILL.md'') then
               (case analyzeSkill yaml_parse root skillPath of
                  Inl e \<Rightarrow> Inl e
                | Inr None \<Rightarrow> detectLoop yaml_parse root dir rest skills
                | Inr (Some skill) \<Rightarrow>
                    detectLoop yaml_parse root dir rest (skills @ [skill]))
             else
               (case readdirSync root actualPath of
                  Inl e \<Rightarrow> detectLoop yaml_parse root dir rest skills
                | Inr nestedEntries \<Rightarrow>
                    detectLoop yaml_parse root dir rest
                      (snd (nestedLoop yaml_parse root skillPath (fst entry)
                              nestedEntries skills)))))"

text \<open>
  \<^verbatim>\<open>detectSkills\<close> is an \<^verbatim>\<open>Effect.Effect<DetectedSkill[], Error>\<close>: running it either
  succeeds with the entries (\<open>Inr\<close>) or fails with an \<^verbatim>\<open>Error\<close>, kept as its message
  (\<open>Inl\<close>).
\<close>

definition detectSkills ::
  "yaml_parser \<Rightarrow> node \<Rightarrow> path \<Rightarrow> string + DetectedSkill list" where
  "detectSkills yaml_parse root dir =
     (case (if \<not> existsSync root dir then Inr []
            else (case readdirSync root dir of
                    Inl e \<Rightarrow> Inl e
                  | Inr entries \<Rightarrow> detectLoop yaml_parse root dir entries [])) of
        Inl error \<Rightarrow> Inl (''Failed to detect skills: '' @ show_error error)
      | Inr skills \<Rightarrow> Inr skills)"

section \<open>The converter (\<^verbatim>\<open>src/converter.ts\<close>)\<close>

subsection \<open>Writing (\<^verbatim>\<open>node:fs\<close>)\<close>

text \<open>
  A call that changes the disk either fails and leaves it as it was, or returns the new
  disk. Write permission and free space are not modelled: the failures that remain are
  those of the path walk, of the kinds of the nodes met, and of unreadable directories.
\<close>

fun put_entry :: "(string \<times> node) list \<Rightarrow> string \<Rightarrow> node \<Rightarrow> (string \<times> node) list" where
  "put_entry [] n v = [(n, v)]"
| "put_entry (e # es) n v = (if fst e = n then (n, v) # es else e # put_entry es n v)"

definition del_entry :: "(string \<times> node) list \<Rightarrow> string \<Rightarrow> (string \<times> node) list" where
  "del_entry es n = filter (\<lambda>e. fst e \<noteq> n) es"

text \<open>Applying a change to the node at a physical position.\<close>

fun update_at :: "node \<Rightarrow> path \<Rightarrow> (node \<Rightarrow> node) \<Rightarrow> node" where
  "update_at n [] f = f n"
| "update_at (Dir r es) (c # cs) f =
     Dir r (map (\<lambda>e. if fst e = c then (fst e, update_at (snd e) cs f) else e) es)"
| "update_at (File m c') (c # cs) f = File m c'"
| "update_at (Link a t) (c # cs) f = Link a t"

definition add_child :: "node \<Rightarrow> path \<Rightarrow> string \<Rightarrow> node \<Rightarrow> node" where
  "add_child root parent n v =
     update_at root parent
       (\<lambda>d. case d of Dir r es \<Rightarrow> Dir r (put_entry es n v) | File m c \<Rightarrow> d | Link a t \<Rightarrow> d)"

definition remove_child :: "node \<Rightarrow> path \<Rightarrow> string \<Rightarrow> node" where
  "remove_child root parent n =
     update_at root parent
       (\<lambda>d. case d of Dir r es \<Rightarrow> Dir r (del_entry es n) | File m c \<Rightarrow> d | Link a t \<Rightarrow> d)"

text \<open>
  Where a new entry goes: the parent of the path is followed to a directory, the last
  component is the name of the entry itself.
\<close>

definition parent_of :: "node \<Rightarrow> path \<Rightarrow> exn + path \<times> (string \<times> node) list" where
  "parent_of root p =
     (case resolve True root (butlast p) of
        Inl e \<Rightarrow> Inl e
      | Inr q \<Rightarrow>
          (case get root q of
             None \<Rightarrow> Inl ENOENT
           | Some (File m c) \<Rightarrow> Inl ENOTDIR
           | Some (Link a t) \<Rightarrow> Inl ENOTDIR
           | Some (Dir r es) \<Rightarrow> Inr (q, es)))"

text \<open>\<^verbatim>\<open>fs.symlinkSync(text, p)\<close>: nothing may exist at \<open>p\<close>, not even a dangling link.\<close>

definition symlinkSync :: "link_text \<Rightarrow> path \<Rightarrow> node \<Rightarrow> exn + node" where
  "symlinkSync text p root =
     (if p = [] then Inl EEXIST
      else if \<not> fst text \<and> snd text = [] then Inl ENOENT
      else
        (case parent_of root p of
           Inl e \<Rightarrow> Inl e
         | Inr (q, es) \<Rightarrow>
             if \<not> valid_name (last p) then Inl EEXIST
             else if map_of es (last p) \<noteq> None then Inl EEXIST
             else Inr (add_child root q (last p) (Link (fst text) (snd text)))))"

text \<open>
  \<^verbatim>\<open>fs.mkdirSync(p, { recursive: true })\<close>: the components are taken one after the other;
  one that is a directory (or a link to one) is entered, a missing one is created.
\<close>

fun mkdir_from :: "path \<Rightarrow> string list \<Rightarrow> node \<Rightarrow> exn + node" where
  "mkdir_from done [] root = Inr root"
| "mkdir_from done (c # cs) root =
     (case node_at True root (done @ [c]) of
        Inr (Dir r es) \<Rightarrow> mkdir_from (done @ [c]) cs root
      | Inr (File m c') \<Rightarrow> Inl (if cs = [] then EEXIST else ENOTDIR)
      | Inr (Link a t) \<Rightarrow> Inl ELOOP
      | Inl e \<Rightarrow>
          if e \<noteq> ENOENT then Inl e
          else
            (case parent_of root (done @ [c]) of
               Inl e' \<Rightarrow> Inl e'
             | Inr (q, es) \<Rightarrow>
                 if \<not> valid_name c then Inl ENOENT
                 else if map_of es c \<noteq> None then Inl EEXIST
                 else mkdir_from (done @ [c]) cs (add_child root q c (Dir True []))))"

definition mkdirSync_recursive :: "path \<Rightarrow> node \<Rightarrow> exn + node" where
  "mkdirSync_recursive p root = mkdir_from [] p root"

text \<open>\<^verbatim>\<open>fs.unlinkSync(p)\<close> removes a file or a link, never a directory.\<close>

definition unlinkSync :: "path \<Rightarrow> node \<Rightarrow> exn + node" where
  "unlinkSync p root =
     (case resolve False root p of
        Inl e \<Rightarrow> Inl e
      | Inr q \<Rightarrow>
          (case get root q of
             None \<Rightarrow> Inl ENOENT
           | Some (Dir r es) \<Rightarrow> Inl EISDIR
           | Some (File m c) \<Rightarrow>
               if q = [] then Inl EISDIR else Inr (remove_child root (butlast q) (last q))
           | Some (Link a t) \<Rightarrow>
               if q = [] then Inl EISDIR else Inr (remove_child root (butlast q) (last q))))"

text \<open>
  \<^verbatim>\<open>fs.rmSync(p, { recursive: true, force: true })\<close>: a missing path is not an error; a
  link is removed, not what it points to. A directory below \<open>p\<close> that cannot be read
  and is not empty cannot be emptied; the model then fails before it removes anything.
\<close>

fun removable :: "node \<Rightarrow> bool" where
  "removable (File m c) = True"
| "removable (Link a t) = True"
| "removable (Dir r es) = ((r \<or> es = []) \<and> (\<forall>e \<in> set es. removable (snd e)))"

definition rmSync_recursive_force :: "path \<Rightarrow> node \<Rightarrow> exn + node" where
  "rmSync_recursive_force p root =
     (case resolve False root p of
        Inl e \<Rightarrow> if e = ENOENT then Inr root else Inl e
      | Inr q \<Rightarrow>
          (case get root q of
             None \<Rightarrow> Inr root
           | Some n \<Rightarrow>
               if q = [] then Inl EPERM
               else if \<not> removable n then Inl EACCES
               else Inr (remove_child root (butlast q) (last q))))"

text \<open>
  \<^verbatim>\<open>fs.renameSync(a, b)\<close>: \<open>a\<close> itself moves (a link is not followed). What is at \<open>b\<close> is
  replaced if it is of the same sort (an empty directory by a directory, a file or link
  by a file or link); a directory cannot move below itself.
\<close>

definition renameSync :: "path \<Rightarrow> path \<Rightarrow> node \<Rightarrow> exn + node" where
  "renameSync a b root =
     (case resolve False root a of
        Inl e \<Rightarrow> Inl e
      | Inr qa \<Rightarrow>
          (case get root qa of
             None \<Rightarrow> Inl ENOENT
           | Some src \<Rightarrow>
               if qa = [] \<or> b = [] then Inl EINVAL
               else
                 (case parent_of root b of
                    Inl e \<Rightarrow> Inl e
                  | Inr (qb, es) \<Rightarrow>
                      if \<not> valid_name (last b) then Inl EINVAL
                      else if qa = qb @ [last b] then Inr root
                      else if take (length qa) (qb @ [last b]) = qa then Inl EINVAL
                      else
                        (case (kind_of src, map_of es (last b)) of
                           (DirK, Some (Dir r' es')) \<Rightarrow>
                             if es' \<noteq> [] then Inl ENOTEMPTY
                             else Inr (add_child (remove_child root (butlast qa) (last qa))
                                         qb (last b) src)
                         | (DirK, Some (File m c)) \<Rightarrow> Inl ENOTDIR
                         | (DirK, Some (Link a' t)) \<Rightarrow> Inl ENOTDIR
                         | (FileK, Some (Dir r' es')) \<Rightarrow> Inl EISDIR
                         | (LinkK, Some (Dir r' es')) \<Rightarrow> Inl EISDIR
                         | other \<Rightarrow>
                             Inr (add_child (remove_child root (butlast qa) (last qa))
                                    qb (last b) src)))))"

text \<open>
  \<^verbatim>\<open>fs.copyFileSync(src, dest)\<close>: the bytes of \<open>src\<close> replace those of an existing file at
  \<open>dest\<close>; a missing \<open>dest\<close> is created with the mode of \<open>src\<close>.
\<close>

definition copyFileSync :: "path \<Rightarrow> path \<Rightarrow> node \<Rightarrow> exn + node" where
  "copyFileSync src dest root =
     (case node_at True root src of
        Inl e \<Rightarrow> Inl e
      | Inr (Dir r es) \<Rightarrow> Inl EISDIR
      | Inr (Link a t) \<Rightarrow> Inl ELOOP
      | Inr (File m c) \<Rightarrow>
          (case resolve True root dest of
             Inr q \<Rightarrow>
               (case get root q of
                  Some (File m' c') \<Rightarrow> Inr (update_at root q (\<lambda>n. File m' c))
                | Some (Dir r es) \<Rightarrow> Inl EISDIR
                | Some (Link a t) \<Rightarrow> Inl ELOOP
                | None \<Rightarrow> Inl ENOENT)
           | Inl e \<Rightarrow>
               if e \<noteq> ENOENT \<or> dest = [] then Inl e
               else
                 (case parent_of root dest of
                    Inl e' \<Rightarrow> Inl e'
                  | Inr (q, es) \<Rightarrow>
                      if \<not> valid_name (last dest) \<or> map_of es (last dest) \<noteq> None
                        then Inl ENOENT
                      else Inr (add_child root q (last dest) (File m c)))))"

definition chmodSync :: "path \<Rightarrow> nat \<Rightarrow> node \<Rightarrow> exn + node" where
  "chmodSync p mode root =
     (case resolve True root p of
        Inl e \<Rightarrow> Inl e
      | Inr q \<Rightarrow>
          Inr (update_at root q
                 (\<lambda>n. case n of File m c \<Rightarrow> File mode c | Dir r es \<Rightarrow> n | Link a t \<Rightarrow> n)))"

subsection \<open>Statements that change the disk\<close>

text \<open>
  A statement takes the disk and returns its value, or the exception it threw, and the
  disk it leaves. An exception ends the statements that follow it; what was written
  before it stays written.
\<close>

type_synonym 'a io = "node \<Rightarrow> (exn + 'a) \<times> node"

definition io_bind :: "'a io \<Rightarrow> ('a \<Rightarrow> 'b io) \<Rightarrow> 'b io" where
  "io_bind m f = (\<lambda>root. case m root of (Inl e, r) \<Rightarrow> (Inl e, r) | (Inr x, r) \<Rightarrow> f x r)"

definition io_return :: "'a \<Rightarrow> 'a io" where
  "io_return x = (\<lambda>root. (Inr x, root))"

definition io_read :: "(node \<Rightarrow> exn + 'a) \<Rightarrow> 'a io" where
  "io_read f = (\<lambda>root. (f root, root))"

definition io_write :: "(node \<Rightarrow> exn + node) \<Rightarrow> unit io" where
  "io_write f = (\<lambda>root. case f root of Inl e \<Rightarrow> (Inl e, root) | Inr r \<Rightarrow> (Inr (), r))"

subsection \<open>Types (\<^verbatim>\<open>src/types.ts\<close>)\<close>

datatype ConversionMode = M_symlink | M_copy | M_move

datatype ConflictResolution = R_skip | R_overwrite | R_backup

datatype action = A_symlinked | A_copied | A_moved | A_skipped | A_backed_up

record ConversionResult =
  skill :: DetectedSkill
  success :: bool
  action :: action
  error :: "string option"
  targetPath :: path

subsection \<open>Helpers\<close>

definition ensureDir :: "path \<Rightarrow> unit io" where
  "ensureDir dir =
     (\<lambda>root. if \<not> existsSync root dir then io_write (mkdirSync_recursive dir) root
             else (Inr (), root))"

text \<open>
  \<^verbatim>\<open>copyDir\<close> calls itself for every subdirectory of the source, while it writes to the
  destination. Copying a directory into itself descends for as long as the system lets
  paths grow: a path of more than \<^verbatim>\<open>PATH_MAX\<close> (4096) bytes fails with
  \<^verbatim>\<open>ENAMETOOLONG\<close>, and every level adds two bytes or more. The first argument counts
  the levels that are left.
\<close>

definition copy_depth_max :: nat where
  "copy_depth_max = 2048"

fun copyDir :: "nat \<Rightarrow> path \<Rightarrow> path \<Rightarrow> unit io"
  and copyLoop :: "nat \<Rightarrow> path \<Rightarrow> path \<Rightarrow> (string \<times> kind) list \<Rightarrow> unit io" where
  "copyDir d src dest root =
     (case ensureDir dest root of
        (Inl e, r) \<Rightarrow> (Inl e, r)
      | (Inr u, r) \<Rightarrow>
          (case readdirSync r src of
             Inl e \<Rightarrow> (Inl e, r)
           | Inr entries \<Rightarrow> copyLoop d src dest entries r))"
| "copyLoop d src dest [] root = (Inr (), root)"
| "copyLoop d src dest (entry # rest) root =
     (let srcPath = path_join src (fst entry);
          destPath = path_join dest (fst entry)
      in if snd entry = DirK then
           (case d of
              0 \<Rightarrow> (Inl ENAMETOOLONG, root)
            | Suc d' \<Rightarrow>
                (case copyDir d' srcPath destPath root of
                   (Inl e, r) \<Rightarrow> (Inl e, r)
                 | (Inr u, r) \<Rightarrow> copyLoop d src dest rest r))
         else if snd entry = LinkK then
           (case readlinkSync root srcPath of
              Inl e \<Rightarrow> (Inl e, root)
            | Inr linkTarget \<Rightarrow>
                (case symlinkSync linkTarget destPath root of
                   Inl e \<Rightarrow> (Inl e, root)
                 | Inr r \<Rightarrow> copyLoop d src dest rest r))
         else
           (case copyFileSync srcPath destPath root of
              Inl e \<Rightarrow> (Inl e, root)
            | Inr r \<Rightarrow>
                (case statSync r srcPath of
                   Inl e \<Rightarrow> (Inl e, r)
                 | Inr st \<Rightarrow>
                     if st_mode st AND 73 \<noteq> 0 then
                       (case chmodSync destPath (st_mode st) r of
                          Inl e \<Rightarrow> (Inl e, r)
                        | Inr r' \<Rightarrow> copyLoop d src dest rest r')
                     else copyLoop d src dest rest r)))"

definition removeDir :: "path \<Rightarrow> unit io" where
  "removeDir dir =
     (\<lambda>root. if existsSync root dir then io_write (rmSync_recursive_force dir) root
             else (Inr (), root))"

definition isSymlinkTo :: "node \<Rightarrow> path \<Rightarrow> path \<Rightarrow> bool" where
  "isSymlinkTo root linkPath targetPath' =
     (case lstatSync root linkPath of
        Inl e \<Rightarrow> False
      | Inr st \<Rightarrow>
          if st_kind st \<noteq> LinkK then False
          else
            (case readlinkSync root linkPath of
               Inl e \<Rightarrow> False
             | Inr linkTarget \<Rightarrow>
                 (let resolvedLinkTarget = path_resolve2 (path_dirname linkPath) linkTarget;
                      resolvedTarget = path_resolve targetPath'
                  in resolvedLinkTarget = resolvedTarget)))"

definition createRelativeSymlink :: "path \<Rightarrow> path \<Rightarrow> unit io" where
  "createRelativeSymlink source target =
     (let targetDir = path_dirname target;
          relativePath = path_relative targetDir source
      in io_write (symlinkSync relativePath target))"

subsection \<open>\<^verbatim>\<open>convertSkill\<close>\<close>

text \<open>The decimal digits of a number, for the template literal of the backup name.\<close>

fun show_nat :: "nat \<Rightarrow> string" where
  "show_nat n =
     (if n < 10 then [char_of (48 + n)]
      else show_nat (n div 10) @ [char_of (48 + n mod 10)])"

text \<open>Lines 79 to 86: \<^verbatim>\<open>lstat\<close> succeeds.\<close>

definition targetExists :: "node \<Rightarrow> path \<Rightarrow> bool" where
  "targetExists root p = (case lstatSync root p of Inl e \<Rightarrow> False | Inr st \<Rightarrow> True)"

text \<open>
  Lines 88 to 128, the block \<^verbatim>\<open>if (targetExists) { ... }\<close>. It either returns from the
  function (\<open>Some\<close> of the result) or falls through to line 130 (\<open>None\<close>). \<open>now\<close> is
  what \<^verbatim>\<open>Date.now()\<close> returns.
\<close>

definition handleExisting ::
  "DetectedSkill \<Rightarrow> path \<Rightarrow> ConversionMode \<Rightarrow> ConflictResolution \<Rightarrow> nat \<Rightarrow>
   ConversionResult option io" where
  "handleExisting sk targetDir mode conflictResolution now =
     (\<lambda>root.
        let tp = path_join targetDir (name sk);
            sourcePath = path sk
        in if targetExists root tp then
             if mode = M_symlink \<and> isSymlinkTo root tp sourcePath then
               (Inr (Some \<lparr>skill = sk, success = True, action = A_skipped,
                           error = Some ''Already linked'', targetPath = tp\<rparr>), root)
             else
               (case conflictResolution of
                  R_skip \<Rightarrow>
                    (Inr (Some \<lparr>skill = sk, success = True, action = A_skipped,
                                error = Some ''Already exists'', targetPath = tp\<rparr>), root)
                | R_backup \<Rightarrow>
                    (let backupDir = path_join targetDir ''_backup'';
                         backupPath = path_join backupDir (name sk @ ''-'' @ show_nat now)
                     in io_bind (ensureDir backupDir)
                          (\<lambda>u. io_bind (io_write (renameSync tp backupPath))
                             (\<lambda>u. io_return None)) root)
                | R_overwrite \<Rightarrow>
                    io_bind (io_read (\<lambda>r. lstatSync r tp))
                      (\<lambda>st. if st_kind st = LinkK
                              then io_bind (io_write (unlinkSync tp)) (\<lambda>u. io_return None)
                            else io_bind (removeDir tp) (\<lambda>u. io_return None)) root)
           else (Inr None, root))"

text \<open>Lines 134 to 137, the same in the three cases of the \<^verbatim>\<open>switch\<close>.\<close>

definition actualSourceOf :: "path \<Rightarrow> path io" where
  "actualSourceOf sourcePath =
     io_bind (io_read (\<lambda>r. lstatSync r sourcePath))
       (\<lambda>st. if st_kind st = LinkK then io_read (\<lambda>r. realpathSync r sourcePath)
             else io_return sourcePath)"

text \<open>Lines 132 to 177, the \<^verbatim>\<open>switch (mode)\<close>.\<close>

definition runMode :: "DetectedSkill \<Rightarrow> path \<Rightarrow> ConversionMode \<Rightarrow> ConversionResult io" where
  "runMode sk targetDir mode =
     (let tp = path_join targetDir (name sk);
          sourcePath = path sk
      in case mode of
           M_symlink \<Rightarrow>
             io_bind (actualSourceOf sourcePath)
               (\<lambda>actualSource. io_bind (createRelativeSymlink actualSource tp)
                  (\<lambda>u. io_return \<lparr>skill = sk, success = True, action = A_symlinked,
                                   error = None, targetPath = tp\<rparr>))
         | M_copy \<Rightarrow>
             io_bind (actualSourceOf sourcePath)
               (\<lambda>actualSource. io_bind (copyDir copy_depth_max actualSource tp)
                  (\<lambda>u. io_return \<lparr>skill = sk, success = True, action = A_copied,
                                   error = None, targetPath = tp\<rparr>))
         | M_move \<Rightarrow>
             io_bind (io_read (\<lambda>r. lstatSync r sourcePath))
               (\<lambda>st. io_bind
                  (if st_kind st = LinkK then
                     io_bind (io_read (\<lambda>r. realpathSync r sourcePath))
                       (\<lambda>actualSource. io_bind (copyDir copy_depth_max actualSource tp)
                          (\<lambda>u. io_write (unlinkSync sourcePath)))
                   else io_write (renameSync sourcePath tp))
                  (\<lambda>u. io_return \<lparr>skill = sk, success = True, action = A_moved,
                                   error = None, targetPath = tp\<rparr>)))"

text \<open>The function passed as \<^verbatim>\<open>try\<close> to \<^verbatim>\<open>Effect.try\<close>, lines 74 to 178.\<close>

definition convertSkill_try ::
  "DetectedSkill \<Rightarrow> path \<Rightarrow> ConversionMode \<Rightarrow> ConflictResolution \<Rightarrow> nat \<Rightarrow>
   ConversionResult io" where
  "convertSkill_try sk targetDir mode conflictResolution now =
     io_bind (handleExisting sk targetDir mode conflictResolution now)
       (\<lambda>returned. case returned of
          Some result \<Rightarrow> io_return result
        | None \<Rightarrow> io_bind (ensureDir targetDir) (\<lambda>u. runMode sk targetDir mode))"

text \<open>
  \<^verbatim>\<open>convertSkill\<close> is an \<^verbatim>\<open>Effect.Effect<ConversionResult, Error>\<close>. Running it on a disk
  gives the disk it leaves and either the result (\<open>Inr\<close>) or the failure of the effect
  (\<open>Inl\<close>), an \<^verbatim>\<open>Error\<close> whose message \<^verbatim>\<open>catch\<close> builds from the exception.
\<close>

type_synonym 'a effect = "node \<Rightarrow> (string + 'a) \<times> node"

definition convertSkill ::
  "DetectedSkill \<Rightarrow> path \<Rightarrow> ConversionMode \<Rightarrow> ConflictResolution \<Rightarrow> nat \<Rightarrow>
   ConversionResult effect" where
  "convertSkill sk targetDir mode conflictResolution now =
     (\<lambda>root. case convertSkill_try sk targetDir mode conflictResolution now root of
        (Inl e, r) \<Rightarrow>
          (Inl (''Failed to convert skill '' @ name sk @ '': '' @ show_error e), r)
      | (Inr result, r) \<Rightarrow> (Inr result, r))"

subsection \<open>\<^verbatim>\<open>convertSkills\<close>\<close>

text \<open>\<^verbatim>\<open>Effect.catchAll\<close>: a failure of the effect is handed to the handler.\<close>

definition catchAll :: "'a effect \<Rightarrow> (string \<Rightarrow> 'a effect) \<Rightarrow> 'a effect" where
  "catchAll eff handler =
     (\<lambda>root. case eff root of (Inl msg, r) \<Rightarrow> handler msg r | (Inr x, r) \<Rightarrow> (Inr x, r))"

definition succeed :: "'a \<Rightarrow> 'a effect" where
  "succeed x = (\<lambda>root. (Inr x, root))"

text \<open>
  \<^verbatim>\<open>Effect.all\<close> on an array runs the effects one after the other and collects their
  values; the first failure is the failure of the whole.
\<close>

fun effect_all :: "'a effect list \<Rightarrow> 'a list effect" where
  "effect_all [] root = (Inr [], root)"
| "effect_all (eff # effs) root =
     (case eff root of
        (Inl msg, r) \<Rightarrow> (Inl msg, r)
      | (Inr x, r) \<Rightarrow>
          (case effect_all effs r of
             (Inl msg, r') \<Rightarrow> (Inl msg, r')
           | (Inr xs, r') \<Rightarrow> (Inr (x # xs), r')))"

text \<open>
  \<open>clock i\<close> is what \<^verbatim>\<open>Date.now()\<close> returns while the entry at index \<open>i\<close> is converted.
\<close>

definition convertSkills ::
  "DetectedSkill list \<Rightarrow> path \<Rightarrow> ConversionMode \<Rightarrow> ConflictResolution \<Rightarrow> (nat \<Rightarrow> nat) \<Rightarrow>
   ConversionResult list effect" where
  "convertSkills skills targetDir mode conflictResolution clock =
     effect_all
       (map (\<lambda>(i, sk).
               catchAll (convertSkill sk targetDir mode conflictResolution (clock i))
                 (\<lambda>msg. succeed
                    \<lparr>skill = sk, success = False, action = A_skipped,
                     error = Some msg, targetPath = path_join targetDir (name sk)\<rparr>))
          (enumerate 0 skills))"

subsection \<open>\<^verbatim>\<open>validateSkill\<close>\<close>

text \<open>
  \<^verbatim>\<open>skill.frontmatter.name\<close>: the property of that name of whatever value the front
  matter is; a missing property, and a property of a value that has none, is
  \<^verbatim>\<open>undefined\<close>, which is falsy.
\<close>

definition property_truthy :: "yaml \<Rightarrow> string \<Rightarrow> bool" where
  "property_truthy fm k =
     (case fm of
        YMap kvs \<Rightarrow> (case map_of kvs k of None \<Rightarrow> False | Some v \<Rightarrow> truthy v)
      | YNull \<Rightarrow> False | YBool b \<Rightarrow> False | YNum i \<Rightarrow> False | YStr s \<Rightarrow> False
      | YSeq xs \<Rightarrow> False)"

definition validateSkill :: "DetectedSkill \<Rightarrow> bool \<times> string list" where
  "validateSkill sk =
     (let warnings =
            (if \<not> property_truthy (frontmatter sk) ''name'' \<and>
                \<not> property_truthy (frontmatter sk) ''description''
             then [''Missing name and description in frontmatter''] else []) @
            (if hasRules sk \<and> \<not> hasAgentsMd sk
             then [''Has rules/ directory but no AGENTS.md - may need to run build'']
             else [])
      in (warnings = [], warnings))"

section \<open>Sample inputs\<close>

text \<open>
  A stand-in for the YAML library: it rejects one text and reads every other text as a
  mapping with one key.
\<close>

definition sample_yaml :: yaml_parser where
  "sample_yaml s =
     (if s = ''name: [unclosed'' then Inl YAMLParseError
      else Inr (YMap [(''name'', YStr s)]))"

text \<open>
  A disk with a source root \<^verbatim>\<open>/agents\<close> and an empty target root \<^verbatim>\<open>/claude\<close>. The
  source root holds a link to an entry stored elsewhere, a plain entry (with a
  subdirectory that has a manifest of its own), a directory with the reserved prefix, a
  dangling link, a regular file and a grouping directory.
\<close>

definition sample_disk :: node where
  "sample_disk = Dir True
     [(''real'', Dir True [(''store'', Dir True [(''SKILL.md'', File 420 ''# Real'')])]),
      (''agents'', Dir True
         [(''linked-skill'', Link True [''real'', ''store'']),
          (''plain'', Dir True
             [(''SKILL.md'', File 420 ''# Plain''), (''run.sh'', File 493 ''echo''),
              (''inner'', Dir True [(''SKILL.md'', File 420 ''# Inner'')])]),
          (''_backup'', Dir True [(''SKILL.md'', File 420 ''# Old'')]),
          (''dangling'', Link False [''nowhere'']),
          (''notes.txt'', File 420 ''notes''),
          (''group'', Dir True
             [(''sub1'', Dir True [(''SKILL.md'', File 420 ''# One'')]),
              (''sub2'', Dir True [(''SKILL.md'', File 420 ''# Two'')])])]),
      (''claude'', Dir True [])]"

text \<open>An entry as the tests build it (\<^verbatim>\<open>createMockSkill\<close>), with a name and a path.\<close>

definition mock_skill :: "string \<Rightarrow> path \<Rightarrow> DetectedSkill" where
  "mock_skill nm p =
     \<lparr>name = nm, path = p, hasSkillMd = True, hasAgentsMd = False, hasRules = False,
      hasScripts = False, hasTemplates = False, hasReferences = False, sizeKb = 1,
      frontmatter = YMap [], isSymlink = False, symlinkTarget = None\<rparr>"

text \<open>
  Three entries for a batch; the path of the second does not exist on the sample disk.
\<close>

definition sample_batch :: "DetectedSkill list" where
  "sample_batch =
     [mock_skill ''plain'' [''agents'', ''plain''],
      mock_skill ''nonexistent'' [''nonexistent'', ''path'', ''skill''],
      mock_skill ''sub1'' [''agents'', ''group'', ''sub1'']]"

text \<open>
  A disk with one entry. The entry holds a manifest of 5 bytes and a file of 1530
  bytes, a directory that cannot be read with a file of 6 bytes, and a link to a
  directory outside the entry with a file of 4 bytes.
\<close>

definition big_disk :: node where
  "big_disk = Dir True
     [(''store'', Dir True [(''f'', File 420 ''abcd'')]),
      (''skills'', Dir True
         [(''big'', Dir True
            [(''SKILL.md'', File 420 ''# Big''),
             (''data.bin'', File 420 (replicate 1530 (CHR ''x''))),
             (''locked'', Dir False [(''secret'', File 420 ''hidden'')]),
             (''alias'', Link True [''store''])])])]"

text \<open>
  The entry that a scan of \<^verbatim>\<open>/agents\<close> on the sample disk returns for the link
  \<^verbatim>\<open>linked-skill\<close>.
\<close>

definition linked_entry :: DetectedSkill where
  "linked_entry =
     \<lparr>name = ''linked-skill'', path = [''agents'', ''linked-skill''], hasSkillMd = True,
      hasAgentsMd = False, hasRules = False, hasScripts = False, hasTemplates = False,
      hasReferences = False, sizeKb = 0, frontmatter = YMap [], isSymlink = True,
      symlinkTarget = Some (True, [''real'', ''store''])\<rparr>"

section \<open>Notions the claims are stated with\<close>

text \<open>
  The disk that the entry at index \<open>i\<close> of a batch meets: the one that the entries
  before it left, whether they succeeded or failed.
\<close>

fun disk_before ::
  "DetectedSkill list \<Rightarrow> path \<Rightarrow> ConversionMode \<Rightarrow> ConflictResolution \<Rightarrow> (nat \<Rightarrow> nat) \<Rightarrow>
   node \<Rightarrow> nat \<Rightarrow> node" where
  "disk_before sks td mode cr clock root 0 = root"
| "disk_before [] td mode cr clock root (Suc i) = root"
| "disk_before (sk # rest) td mode cr clock root (Suc i) =
     disk_before rest td mode cr (\<lambda>j. clock (Suc j))
       (snd (convertSkill sk td mode cr (clock 0) root)) i"

text \<open>The entries that one iteration of the loop of \<^verbatim>\<open>detectSkills\<close> pushes.\<close>

definition entry_skills ::
  "yaml_parser \<Rightarrow> node \<Rightarrow> path \<Rightarrow> string \<times> kind \<Rightarrow> DetectedSkill list" where
  "entry_skills yaml_parse root dir entry =
     (case detectLoop yaml_parse root dir [entry] [] of Inl e \<Rightarrow> [] | Inr skills \<Rightarrow> skills)"

text \<open>
  An entry of a listing that is a link which cannot be resolved to a real path.
\<close>

definition dangling_link :: "node \<Rightarrow> path \<Rightarrow> string \<times> kind \<Rightarrow> bool" where
  "dangling_link root dir entry \<longleftrightarrow>
     snd entry = LinkK \<and> isl (realpathSync root (path_join dir (fst entry)))"

text \<open>
  The bytes of the regular files in a tree: a link counts nothing and is not followed,
  a directory that cannot be read counts nothing, a directory that can be read counts
  what the children of its listing count.
\<close>

function tree_bytes :: "node \<Rightarrow> nat" where
  "tree_bytes (File m c) = length c"
| "tree_bytes (Link a t) = 0"
| "tree_bytes (Dir r es) =
     (if r then sum_list (map (\<lambda>e. tree_bytes (snd e)) (listing es)) else 0)"
  by pat_completeness auto

text \<open>The same for the directory that a path leads to.\<close>

definition entry_bytes :: "node \<Rightarrow> path \<Rightarrow> nat" where
  "entry_bytes root p =
     (case node_at True root p of
        Inl e \<Rightarrow> 0
      | Inr (File m c) \<Rightarrow> 0
      | Inr (Link a t) \<Rightarrow> 0
      | Inr (Dir r es) \<Rightarrow> tree_bytes (Dir r es))"

text \<open>A node without its children: what the position itself holds.\<close>

fun own :: "node \<Rightarrow> node" where
  "own (File m c) = File m c"
| "own (Link a t) = Link a t"
| "own (Dir r es) = Dir r []"

section \<open>Properties of the file system model\<close>

subsection \<open>Normalised paths\<close>

lemma clean_simps [simp]:
  "clean []"
  "clean (c # cs) \<longleftrightarrow> c \<noteq> [] \<and> c \<noteq> ''.'' \<and> c \<noteq> ''..'' \<and> clean cs"
  "clean (xs @ ys) \<longleftrightarrow> clean xs \<and> clean ys"
  by (auto simp: clean_def)

lemma clean_butlast: "clean p \<Longrightarrow> clean (butlast p)"
  by (auto simp: clean_def dest: in_set_butlastD)

lemma normalize_from_clean: "clean acc \<Longrightarrow> clean (normalize_from acc cs)"
  by (induction acc cs rule: normalize_from.induct) (auto simp: clean_butlast)

lemma normalize_from_id: "clean cs \<Longrightarrow> normalize_from acc cs = acc @ cs"
  by (induction acc cs rule: normalize_from.induct) auto

lemma normalize_from_append:
  "normalize_from acc (xs @ ys) = normalize_from (normalize_from acc xs) ys"
  by (induction acc xs rule: normalize_from.induct) auto

lemma segments_acc_plain: "CHR ''/'' \<notin> set s \<Longrightarrow> segments_acc cur s = [cur @ s]"
  by (induction s arbitrary: cur) auto

lemma segments_valid: "valid_name n \<Longrightarrow> segments n = [n]"
  by (simp add: segments_def valid_name_def segments_acc_plain)

lemma valid_name_clean: "valid_name n \<Longrightarrow> clean [n]"
  by (simp add: valid_name_def)

lemma path_join_valid: "valid_name n \<Longrightarrow> path_join dir n = path_normalize dir @ [n]"
  by (simp add: path_join_def path_normalize_def segments_valid normalize_from_append
      valid_name_def)

lemma path_normalize_clean [simp]: "clean (path_normalize p)"
  by (simp add: path_normalize_def normalize_from_clean)

lemma path_normalize_id: "clean p \<Longrightarrow> path_normalize p = p"
  by (simp add: path_normalize_def normalize_from_id)

lemma path_join_clean [simp]: "clean (path_join dir s)"
  by (simp add: path_join_def)

lemma path_join_clean_valid: "clean dir \<Longrightarrow> valid_name n \<Longrightarrow> path_join dir n = dir @ [n]"
  by (simp add: path_join_valid path_normalize_id)

subsection \<open>Listings and lookups\<close>

lemma listing_subset: "set (listing es) \<subseteq> set es"
  by (induction es rule: listing.induct) (auto split: if_splits)

lemma map_of_filter_other:
  "n \<noteq> m \<Longrightarrow> map_of (filter (\<lambda>e. fst e \<noteq> m) es) n = map_of es n"
  by (induction es) auto

lemma listing_mem:
  "(n, ch) \<in> set (listing es) \<Longrightarrow> map_of es n = Some ch \<and> valid_name n"
proof (induction es rule: listing.induct)
  case 1
  then show ?case by simp
next
  case (2 m c es)
  have sub: "\<And>x. x \<in> set (listing (filter (\<lambda>e. fst e \<noteq> m) es)) \<Longrightarrow> fst x \<noteq> m"
    using listing_subset by fastforce
  from 2 show ?case
    by (auto split: if_splits dest: sub simp: map_of_filter_other)
qed

lemma get_snoc:
  "get root (q @ [n]) =
     (case get root q of
        None \<Rightarrow> None
      | Some (File m c) \<Rightarrow> None
      | Some (Link a t) \<Rightarrow> None
      | Some (Dir r es) \<Rightarrow> map_of es n)"
proof (induction root q rule: get.induct)
  case (1 n')
  then show ?case by (cases n') (auto split: option.splits)
qed (auto split: option.splits)

lemma size_child: "map_of es n = Some ch \<Longrightarrow> size ch < size (Dir r es)"
proof -
  assume "map_of es n = Some ch"
  then have "(n, ch) \<in> set es" by (rule map_of_SomeD)
  then show ?thesis
    by (induction es) auto
qed

lemma get_size_le: "get root q = Some n \<Longrightarrow> size n \<le> size root"
proof (induction root q rule: get.induct)
  case (2 r es c cs)
  then show ?case
    by (auto split: option.splits dest!: size_child[where r=r] simp del: node.size)
qed auto

lemma node_at_size_le: "node_at f root p = Inr n \<Longrightarrow> size n \<le> size root"
  by (auto simp: node_at_def split: sum.splits option.splits dest: get_size_le)

text \<open>A walk that ends in a directory goes on into a child that is not a link.\<close>

lemma walk_snoc:
  "walk True fuel root cur rest = Inr q \<Longrightarrow> get root q = Some (Dir r es) \<Longrightarrow>
   map_of es n = Some ch \<Longrightarrow> kind_of ch \<noteq> LinkK \<Longrightarrow> valid_name n \<Longrightarrow>
   walk True fuel root cur (rest @ [n]) = Inr (q @ [n])"
proof (induction "True" fuel root cur rest rule: walk.induct)
  case (1 fuel root cur)
  then show ?case by (cases ch) (auto simp: valid_name_def)
next
  case (2 fuel root cur c cs)
  then show ?case
    by (auto split: option.splits node.splits if_splits)
qed

lemma readdir_child:
  assumes rd: "readdirSync root cur = Inr entries"
    and mem: "(n, DirK) \<in> set entries"
  shows "\<exists>r es ch. node_at True root cur = Inr (Dir r es) \<and> valid_name n \<and>
           map_of es n = Some ch \<and> kind_of ch = DirK \<and>
           node_at True root (cur @ [n]) = Inr ch"
proof -
  from rd obtain es where at: "node_at True root cur = Inr (Dir True es)"
    and ents: "entries = map (\<lambda>e. (fst e, kind_of (snd e))) (listing es)"
    by (auto simp: readdirSync_def split: sum.splits node.splits if_splits)
  from mem ents obtain ch where "(n, ch) \<in> set (listing es)" and k: "kind_of ch = DirK"
    by auto
  then have mo: "map_of es n = Some ch" and v: "valid_name n"
    using listing_mem by blast+
  from at obtain q where w: "walk True symloop_max root [] cur = Inr q"
    and g: "get root q = Some (Dir True es)"
    by (auto simp: node_at_def resolve_def split: sum.splits option.splits)
  have "walk True symloop_max root [] (cur @ [n]) = Inr (q @ [n])"
    using walk_snoc[OF w g mo _ v] k by simp
  moreover have "get root (q @ [n]) = Some ch"
    by (simp add: get_snoc g mo)
  ultimately have "node_at True root (cur @ [n]) = Inr ch"
    by (simp add: node_at_def resolve_def)
  with at mo v k show ?thesis by blast
qed

subsection \<open>\<^verbatim>\<open>walkDir\<close> ends\<close>

lemma walk_measure_child:
  assumes rd: "readdirSync root cur = Inr entries"
    and mem: "entry \<in> set entries" and k: "snd entry = DirK"
  shows "walk_measure root (path_join cur (fst entry)) < walk_measure root cur"
proof -
  from mem k have "(fst entry, DirK) \<in> set entries"
    by (metis prod.collapse)
  from readdir_child[OF rd this] obtain r es ch where
    at: "node_at True root cur = Inr (Dir r es)" and v: "valid_name (fst entry)"
    and mo: "map_of es (fst entry) = Some ch"
    and at': "node_at True root (cur @ [fst entry]) = Inr ch"
    by blast
  show ?thesis
  proof (cases "clean cur")
    case True
    then have pj: "path_join cur (fst entry) = cur @ [fst entry]"
      by (simp add: path_join_valid[OF v] path_normalize_id)
    have "clean (cur @ [fst entry])"
      using True v by (simp add: valid_name_def)
    then show ?thesis
      using True at at' size_child[OF mo, of r] by (simp add: walk_measure_def pj)
  next
    case False
    have "walk_measure root (path_join cur (fst entry)) \<le> size root"
      by (auto simp: walk_measure_def split: sum.splits dest: node_at_size_le)
    then show ?thesis
      using False by (simp add: walk_measure_def)
  qed
qed

termination walkDir
proof (relation "measure (\<lambda>(root, cur, tot). walk_measure root cur)")
  show "wf (measure (\<lambda>(root, cur, tot). walk_measure root cur))" by simp
next
  fix root :: node and currentPath :: path and totalSize :: nat
    and entries :: "(string \<times> kind) list" and entry :: "string \<times> kind"
    and acc :: "nat \<times> bool"
  assume "readdirSync root currentPath = Inr entries" "entry \<in> set entries"
    "snd entry = DirK"
  then show "((root, path_join currentPath (fst entry), fst acc), root, currentPath, totalSize)
       \<in> measure (\<lambda>(root, cur, tot). walk_measure root cur)"
    by (simp add: walk_measure_child)
qed

declare walkDir.simps [simp del]

subsection \<open>\<open>tree_bytes\<close> ends\<close>

termination tree_bytes
proof (relation "measure size")
  show "wf (measure size)" by simp
next
  fix r :: bool and es :: "(string \<times> node) list" and e :: "string \<times> node"
  assume "e \<in> set (listing es)"
  then have "(fst e, snd e) \<in> set es" using listing_subset[of es] by auto
  then have "size (snd e) < size (Dir r es)"
    by (induction es) auto
  then show "(snd e, Dir r es) \<in> measure size" by simp
qed

section \<open>The front matter\<close>

text \<open>
  The matcher of the regular expression finds the text the expression describes: there
  is a match exactly when the content is the opening fence, some text, the closing
  fence and a rest; the group is the shortest such text.
\<close>

lemma before_first_None:
  "before_first pat acc s = None \<longleftrightarrow> (\<nexists>b r. s = b @ pat @ r)"
proof (induction s arbitrary: acc)
  case Nil
  then show ?case by auto
next
  case (Cons c cs)
  show ?case
  proof (cases "take (length pat) (c # cs) = pat")
    case True
    then have "c # cs = [] @ pat @ drop (length pat) (c # cs)"
      by (metis append_Nil append_take_drop_id)
    with True show ?thesis by (simp del: append_Nil) blast
  next
    case False
    have "(\<exists>b r. c # cs = b @ pat @ r) \<longleftrightarrow> (\<exists>b r. cs = b @ pat @ r)"
    proof
      assume "\<exists>b r. c # cs = b @ pat @ r"
      then obtain b r where eq: "c # cs = b @ pat @ r" by blast
      show "\<exists>b r. cs = b @ pat @ r"
      proof (cases b)
        case Nil
        with eq have "take (length pat) (c # cs) = pat" by simp
        with False show ?thesis by simp
      next
        case (Cons b0 b')
        with eq show ?thesis by auto
      qed
    next
      assume "\<exists>b r. cs = b @ pat @ r"
      then obtain b r where "cs = b @ pat @ r" by blast
      then have "c # cs = (c # b) @ pat @ r" by simp
      then show "\<exists>b r. c # cs = b @ pat @ r" by blast
    qed
    with False Cons show ?thesis by simp
  qed
qed

lemma before_first_Some:
  "before_first pat acc s = Some x \<Longrightarrow>
     \<exists>b r. x = acc @ b \<and> s = b @ pat @ r \<and>
       (\<forall>b' r'. s = b' @ pat @ r' \<longrightarrow> length b \<le> length b')"
proof (induction s arbitrary: acc)
  case Nil
  then show ?case by (auto split: if_splits)
next
  case (Cons c cs)
  show ?case
  proof (cases "take (length pat) (c # cs) = pat")
    case True
    then have "c # cs = [] @ pat @ drop (length pat) (c # cs)"
      by (metis append_Nil append_take_drop_id)
    moreover from True Cons.prems have "x = acc @ []" by simp
    ultimately show ?thesis by (metis le0 list.size(3))
  next
    case False
    with Cons.prems have "before_first pat (acc @ [c]) cs = Some x" by simp
    from Cons.IH[OF this] obtain b r where x: "x = (acc @ [c]) @ b" and cs: "cs = b @ pat @ r"
      and least: "\<forall>b' r'. cs = b' @ pat @ r' \<longrightarrow> length b \<le> length b'"
      by blast
    have "\<forall>b' r'. c # cs = b' @ pat @ r' \<longrightarrow> length (c # b) \<le> length b'"
    proof (intro allI impI)
      fix b' r'
      assume eq: "c # cs = b' @ pat @ r'"
      show "length (c # b) \<le> length b'"
      proof (cases b')
        case Nil
        with eq have "take (length pat) (c # cs) = pat" by simp
        with False show ?thesis by simp
      next
        case (Cons b0 b'')
        with eq have "cs = b'' @ pat @ r'" by simp
        with least have "length b \<le> length b''" by blast
        with Cons show ?thesis by simp
      qed
    qed
    moreover have "x = acc @ (c # b)" using x by simp
    moreover have "c # cs = (c # b) @ pat @ r" using cs by simp
    ultimately show ?thesis by blast
  qed
qed

lemma take4_fence: "take 4 c = fence_open \<longleftrightarrow> (\<exists>rest. c = fence_open @ rest)"
proof
  assume "take 4 c = fence_open"
  then have "c = fence_open @ drop 4 c" by (metis append_take_drop_id)
  then show "\<exists>rest. c = fence_open @ rest" ..
next
  assume "\<exists>rest. c = fence_open @ rest"
  then show "take 4 c = fence_open" by (auto simp: fence_open_def)
qed

lemma frontmatter_match_None:
  "frontmatter_match c = None \<longleftrightarrow> (\<nexists>b r. c = fence_open @ b @ fence_close @ r)"
proof (cases "take 4 c = fence_open")
  case True
  then have c: "c = fence_open @ drop 4 c" by (metis append_take_drop_id)
  have "(\<exists>b r. c = fence_open @ b @ fence_close @ r) \<longleftrightarrow>
        (\<exists>b r. drop 4 c = b @ fence_close @ r)"
    by (metis c same_append_eq)
  with True show ?thesis
    by (simp add: frontmatter_match_def before_first_None)
next
  case False
  then have "\<nexists>rest. c = fence_open @ rest" by (simp add: take4_fence)
  then have "\<nexists>b r. c = fence_open @ b @ fence_close @ r" by blast
  with False show ?thesis by (simp add: frontmatter_match_def)
qed

lemma frontmatter_match_Some:
  assumes "frontmatter_match c = Some b"
  shows "\<exists>r. c = fence_open @ b @ fence_close @ r \<and>
          (\<forall>b' r'. c = fence_open @ b' @ fence_close @ r' \<longrightarrow> length b \<le> length b')"
proof -
  from assms have t: "take 4 c = fence_open"
    and bf: "before_first fence_close [] (drop 4 c) = Some b"
    by (auto simp: frontmatter_match_def split: if_splits)
  from t have c: "c = fence_open @ drop 4 c" by (metis append_take_drop_id)
  from before_first_Some[OF bf] obtain r where d: "drop 4 c = b @ fence_close @ r"
    and least: "\<forall>b' r'. drop 4 c = b' @ fence_close @ r' \<longrightarrow> length b \<le> length b'"
    by auto
  have "c = fence_open @ b @ fence_close @ r" using c d by metis
  moreover have "\<forall>b' r'. c = fence_open @ b' @ fence_close @ r' \<longrightarrow> length b \<le> length b'"
    using least c by (metis same_append_eq)
  ultimately show ?thesis by blast
qed

text \<open>
  Claim C6. \<^verbatim>\<open>parseFrontmatter\<close> raises no error, whatever the content and whatever the
  YAML library does. When the content has no delimited block, and when the library
  rejects the text of the block, the result is the empty mapping.
\<close>

theorem parseFrontmatter_never_raises:
  "(\<exists>v. parseFrontmatter yaml_parse content = Inr v) \<and>
   ((\<nexists>b r. content = fence_open @ b @ fence_close @ r) \<longrightarrow>
      parseFrontmatter yaml_parse content = Inr (YMap [])) \<and>
   (\<forall>b e. frontmatter_match content = Some b \<and> yaml_parse b = Inl e \<longrightarrow>
      parseFrontmatter yaml_parse content = Inr (YMap []))"
proof (intro conjI allI impI)
  show "\<exists>v. parseFrontmatter yaml_parse content = Inr v"
    by (simp add: parseFrontmatter_def split: option.splits sum.splits)
next
  assume "\<nexists>b r. content = fence_open @ b @ fence_close @ r"
  then have "frontmatter_match content = None" by (simp add: frontmatter_match_None)
  then show "parseFrontmatter yaml_parse content = Inr (YMap [])"
    by (simp add: parseFrontmatter_def)
next
  fix b e
  assume "frontmatter_match content = Some b \<and> yaml_parse b = Inl e"
  then show "parseFrontmatter yaml_parse content = Inr (YMap [])"
    by (simp add: parseFrontmatter_def)
qed

lemma no_block: "\<nexists>b r. ''# Title'' = fence_open @ b @ fence_close @ r"
  by (simp add: fence_open_def)

theorem parseFrontmatter_never_raises_witness:
  "parseFrontmatter sample_yaml ''# Title'' = Inr (YMap []) \<and>
   frontmatter_match (fence_open @ ''name: [unclosed'' @ fence_close) = Some ''name: [unclosed'' \<and>
   sample_yaml ''name: [unclosed'' = Inl YAMLParseError \<and>
   parseFrontmatter sample_yaml (fence_open @ ''name: [unclosed'' @ fence_close) = Inr (YMap [])"
proof -
  have m: "frontmatter_match (fence_open @ ''name: [unclosed'' @ fence_close) = Some ''name: [unclosed''"
    by (simp add: frontmatter_match_def fence_open_def fence_close_def)
  have y: "sample_yaml ''name: [unclosed'' = Inl YAMLParseError"
    by (simp add: sample_yaml_def)
  from parseFrontmatter_never_raises[of sample_yaml "''# Title''"] no_block
  have 1: "parseFrontmatter sample_yaml ''# Title'' = Inr (YMap [])" by blast
  from parseFrontmatter_never_raises[of sample_yaml "fence_open @ ''name: [unclosed'' @ fence_close"] m y
  have 2: "parseFrontmatter sample_yaml (fence_open @ ''name: [unclosed'' @ fence_close) = Inr (YMap [])"
    by blast
  from 1 2 m y show ?thesis by simp
qed

section \<open>The shape of a conversion\<close>

lemma io_bind_Inr:
  "io_bind m f root = (Inr y, root') \<longleftrightarrow> (\<exists>x d. m root = (Inr x, d) \<and> f x d = (Inr y, root'))"
  by (cases "m root") (auto simp: io_bind_def split: sum.splits)

lemma io_return_Inr: "io_return x root = (Inr y, root') \<longleftrightarrow> x = y \<and> root = root'"
  by (auto simp: io_return_def)

lemma handleExisting_Some:
  assumes h: "handleExisting sk td mode cr now root = (Inr (Some r), root')"
  shows "success r \<and> action r = A_skipped \<and> skill r = sk \<and>
         targetPath r = path_join td (name sk) \<and> root' = root \<and>
         (error r = Some ''Already linked'' \<and> mode = M_symlink \<or>
          error r = Some ''Already exists'' \<and> cr = R_skip)"
proof (cases "targetExists root (path_join td (name sk))")
  case False
  with h show ?thesis by (simp add: handleExisting_def Let_def)
next
  case ex: True
  show ?thesis
  proof (cases "mode = M_symlink \<and> isSymlinkTo root (path_join td (name sk)) (path sk)")
    case True
    with h ex show ?thesis by (auto simp add: handleExisting_def Let_def)
  next
    case False
    show ?thesis
    proof (cases cr)
      case R_skip
      with h ex False show ?thesis by (auto simp add: handleExisting_def Let_def)
    next
      case R_overwrite
      with h ex False have False
        by (auto simp add: handleExisting_def Let_def io_bind_Inr io_return_Inr split: if_splits)
      then show ?thesis ..
    next
      case R_backup
      with h ex False have False
        by (auto simp add: handleExisting_def Let_def io_bind_Inr io_return_Inr split: if_splits)
      then show ?thesis ..
    qed
  qed
qed

lemma runMode_result:
  assumes h: "runMode sk td mode root = (Inr r, root')"
  shows "success r \<and> skill r = sk \<and> error r = None \<and>
         targetPath r = path_join td (name sk) \<and>
         action r = (case mode of M_symlink \<Rightarrow> A_symlinked | M_copy \<Rightarrow> A_copied
                      | M_move \<Rightarrow> A_moved)"
proof (cases mode)
  case M_symlink
  with h show ?thesis
    by (auto simp add: runMode_def Let_def io_bind_Inr io_return_Inr)
next
  case M_copy
  with h show ?thesis
    by (auto simp add: runMode_def Let_def io_bind_Inr io_return_Inr)
next
  case M_move
  with h show ?thesis
    by (auto simp add: runMode_def Let_def io_bind_Inr io_return_Inr)
qed

lemma convertSkill_try_result:
  assumes "convertSkill_try sk td mode cr now root = (Inr r, root')"
  shows "success r \<and> skill r = sk \<and> targetPath r = path_join td (name sk) \<and>
         (action r = A_skipped \<and>
            (error r = Some ''Already linked'' \<and> mode = M_symlink \<or>
             error r = Some ''Already exists'' \<and> cr = R_skip) \<or>
          error r = None \<and>
          action r = (case mode of M_symlink \<Rightarrow> A_symlinked | M_copy \<Rightarrow> A_copied
                      | M_move \<Rightarrow> A_moved))"
proof -
  from assms obtain ret d where h: "handleExisting sk td mode cr now root = (Inr ret, d)"
    and rest: "(case ret of Some result \<Rightarrow> io_return result
                | None \<Rightarrow> io_bind (ensureDir td) (\<lambda>u. runMode sk td mode)) d = (Inr r, root')"
    by (auto simp: convertSkill_try_def io_bind_Inr)
  show ?thesis
  proof (cases ret)
    case None
    with rest obtain d' where "runMode sk td mode d' = (Inr r, root')"
      by (auto simp: io_bind_Inr)
    from runMode_result[OF this] show ?thesis by simp
  next
    case (Some res)
    with rest have "res = r" by (simp add: io_return_def)
    with handleExisting_Some[of sk td mode cr now root r d] h Some show ?thesis by simp
  qed
qed

lemma convertSkill_cases:
  "(\<exists>e root'. convertSkill_try sk td mode cr now root = (Inl e, root') \<and>
      convertSkill sk td mode cr now root =
        (Inl (''Failed to convert skill '' @ name sk @ '': '' @ show_error e), root')) \<or>
   (\<exists>r root'. convertSkill_try sk td mode cr now root = (Inr r, root') \<and>
      convertSkill sk td mode cr now root = (Inr r, root'))"
proof (cases "convertSkill_try sk td mode cr now root")
  case (Pair out d)
  then show ?thesis by (cases out) (simp_all add: convertSkill_def)
qed

lemma convertSkill_Inr:
  "convertSkill sk td mode cr now root = (Inr r, root') \<Longrightarrow>
   convertSkill_try sk td mode cr now root = (Inr r, root')"
  using convertSkill_cases[of sk td mode cr now root] by auto

section \<open>The shape of a batch\<close>

lemma isolated_outcome:
  "catchAll (convertSkill sk td mode cr now)
     (\<lambda>msg. succeed \<lparr>skill = sk, success = False, action = A_skipped,
                      error = Some msg, targetPath = path_join td (name sk)\<rparr>) root =
   (Inr (case fst (convertSkill sk td mode cr now root) of
           Inl msg \<Rightarrow> \<lparr>skill = sk, success = False, action = A_skipped,
                        error = Some msg, targetPath = path_join td (name sk)\<rparr>
         | Inr res \<Rightarrow> res),
    snd (convertSkill sk td mode cr now root))"
proof (cases "convertSkill sk td mode cr now root")
  case (Pair out d)
  then show ?thesis by (cases out) (simp_all add: catchAll_def succeed_def)
qed

lemma convertSkills_Nil: "convertSkills [] td mode cr clock root = (Inr [], root)"
  by (simp add: convertSkills_def)

lemma convertSkills_Cons:
  "convertSkills (sk # rest) td mode cr clock root =
     (case convertSkills rest td mode cr (\<lambda>j. clock (Suc j))
             (snd (convertSkill sk td mode cr (clock 0) root)) of
        (Inl msg, d) \<Rightarrow> (Inl msg, d)
      | (Inr xs, d) \<Rightarrow>
          (Inr ((case fst (convertSkill sk td mode cr (clock 0) root) of
                   Inl msg \<Rightarrow> \<lparr>skill = sk, success = False, action = A_skipped,
                                error = Some msg, targetPath = path_join td (name sk)\<rparr>
                 | Inr res \<Rightarrow> res) # xs), d))"
proof -
  have shift: "map (\<lambda>(i, sk).
               catchAll (convertSkill sk td mode cr (clock i))
                 (\<lambda>msg. succeed
                    \<lparr>skill = sk, success = False, action = A_skipped,
                     error = Some msg, targetPath = path_join td (name sk)\<rparr>))
          (enumerate (Suc 0) rest) =
        map (\<lambda>(i, sk).
               catchAll (convertSkill sk td mode cr (clock (Suc i)))
                 (\<lambda>msg. succeed
                    \<lparr>skill = sk, success = False, action = A_skipped,
                     error = Some msg, targetPath = path_join td (name sk)\<rparr>))
          (enumerate 0 rest)"
    by (simp add: enumerate_Suc_eq[of 0] split_def)
  show ?thesis
    unfolding convertSkills_def
    by (simp add: shift isolated_outcome del: One_nat_def)
qed

lemma convertSkills_total:
  "\<exists>rs root'. convertSkills sks td mode cr clock root = (Inr rs, root') \<and>
     length rs = length sks"
proof (induction sks arbitrary: clock root)
  case Nil
  then show ?case by (simp add: convertSkills_Nil)
next
  case (Cons sk rest)
  from Cons[of "\<lambda>j. clock (Suc j)" "snd (convertSkill sk td mode cr (clock 0) root)"]
  show ?case by (auto simp: convertSkills_Cons)
qed

lemma convertSkills_nth:
  assumes "convertSkills sks td mode cr clock root = (Inr rs, root')" and "i < length sks"
  shows "rs ! i =
     (case fst (convertSkill (sks ! i) td mode cr (clock i)
                 (disk_before sks td mode cr clock root i)) of
        Inl msg \<Rightarrow> \<lparr>skill = sks ! i, success = False, action = A_skipped,
                     error = Some msg, targetPath = path_join td (name (sks ! i))\<rparr>
      | Inr res \<Rightarrow> res)"
  using assms
proof (induction sks arbitrary: clock root rs i root')
  case Nil
  then show ?case by simp
next
  case (Cons sk rest)
  from convertSkills_total[of rest td mode cr "\<lambda>j. clock (Suc j)"
      "snd (convertSkill sk td mode cr (clock 0) root)"]
  obtain xs d where tl: "convertSkills rest td mode cr (\<lambda>j. clock (Suc j))
      (snd (convertSkill sk td mode cr (clock 0) root)) = (Inr xs, d)"
    by blast
  with Cons.prems(1) have rs: "rs = (case fst (convertSkill sk td mode cr (clock 0) root) of
                   Inl msg \<Rightarrow> \<lparr>skill = sk, success = False, action = A_skipped,
                                error = Some msg, targetPath = path_join td (name sk)\<rparr>
                 | Inr res \<Rightarrow> res) # xs"
    by (simp add: convertSkills_Cons)
  show ?case
  proof (cases i)
    case 0
    with rs show ?thesis by (simp split: sum.splits)
  next
    case (Suc j)
    with Cons.prems(2) have "j < length rest" by simp
    from Cons.IH[OF tl this] rs Suc show ?thesis by (simp split: sum.splits)
  qed
qed

lemma isolated_skill:
  "skill (case fst (convertSkill sk td mode cr now root) of
        Inl msg \<Rightarrow> \<lparr>skill = sk, success = False, action = A_skipped,
                     error = Some msg, targetPath = path_join td (name sk)\<rparr>
      | Inr res \<Rightarrow> res) = sk"
proof (cases "convertSkill sk td mode cr now root")
  case (Pair out d)
  show ?thesis
  proof (cases out)
    case (Inl msg)
    with Pair show ?thesis by simp
  next
    case (Inr res)
    with Pair convertSkill_try_result[OF convertSkill_Inr, of sk td mode cr now root res d]
    show ?thesis by simp
  qed
qed

section \<open>Claims about the converter\<close>

text \<open>
  Claim C1, as it is written, fails: \<^verbatim>\<open>convertSkill\<close> does not turn a failure into a
  result with \<^verbatim>\<open>success: false\<close>. An exception thrown while the existing target is
  handled or while the strategy runs is caught by \<^verbatim>\<open>Effect.try\<close> and becomes the
  failure of the effect that \<^verbatim>\<open>convertSkill\<close> returns. On the sample disk an entry whose
  path does not exist makes the effect fail.
\<close>

theorem convertSkill_missing_source_counterexample:
  "fst (convertSkill (mock_skill ''nonexistent'' [''nonexistent'', ''path'', ''skill''])
          [''claude''] M_copy R_skip 0 sample_disk)
   = Inl ''Failed to convert skill nonexistent: Error: ENOENT''"
  by code_simp

text \<open>
  Claim C1, amended. Running \<^verbatim>\<open>convertSkill\<close> never throws: either an exception \<open>e\<close>
  was caught and the effect fails with the message
  \<^verbatim>\<open>Failed to convert skill <name>: <e>\<close>, or the effect succeeds with a result for
  the entry, and a result it succeeds with always has \<^verbatim>\<open>success: true\<close>.
\<close>

theorem convertSkill_failure_is_effect_failure:
  "(\<exists>e root'. convertSkill_try sk td mode cr now root = (Inl e, root') \<and>
      convertSkill sk td mode cr now root =
        (Inl (''Failed to convert skill '' @ name sk @ '': '' @ show_error e), root')) \<or>
   (\<exists>r root'. convertSkill sk td mode cr now root = (Inr r, root') \<and>
      success r \<and> skill r = sk)"
  using convertSkill_cases[of sk td mode cr now root] convertSkill_try_result[of sk td mode cr now root]
  by blast

text \<open>
  Claim C3. \<^verbatim>\<open>convertSkills\<close> always succeeds with one result for every entry, in the
  order of the entries. The result at index \<open>i\<close> is what \<^verbatim>\<open>convertSkill\<close> gives for
  entry \<open>i\<close> on the disk that the entries before it left; where that effect fails
  with a message, the result is \<^verbatim>\<open>success: false\<close>, \<^verbatim>\<open>action: "skipped"\<close> with that
  message, and the entries after it are converted all the same.
\<close>

theorem convertSkills_one_result_per_entry:
  "\<exists>rs root'. convertSkills sks td mode cr clock root = (Inr rs, root') \<and>
     length rs = length sks \<and> map skill rs = sks \<and>
     (\<forall>i < length sks.
        rs ! i =
          (case fst (convertSkill (sks ! i) td mode cr (clock i)
                      (disk_before sks td mode cr clock root i)) of
             Inl msg \<Rightarrow> \<lparr>skill = sks ! i, success = False, action = A_skipped,
                          error = Some msg, targetPath = path_join td (name (sks ! i))\<rparr>
           | Inr res \<Rightarrow> res))"
proof -
  from convertSkills_total obtain rs root' where
    run: "convertSkills sks td mode cr clock root = (Inr rs, root')"
    and len: "length rs = length sks"
    by blast
  have nth: "\<forall>i < length sks. rs ! i =
          (case fst (convertSkill (sks ! i) td mode cr (clock i)
                      (disk_before sks td mode cr clock root i)) of
             Inl msg \<Rightarrow> \<lparr>skill = sks ! i, success = False, action = A_skipped,
                          error = Some msg, targetPath = path_join td (name (sks ! i))\<rparr>
           | Inr res \<Rightarrow> res)"
    using convertSkills_nth[OF run] by blast
  have "map skill rs = sks"
  proof (rule nth_equalityI)
    show "length (map skill rs) = length sks" using len by simp
  next
    fix i assume "i < length (map skill rs)"
    then have i: "i < length sks" using len by simp
    then have "skill (rs ! i) = sks ! i"
      using nth isolated_skill by simp
    then show "map skill rs ! i = sks ! i" using i len by simp
  qed
  with run len nth show ?thesis by blast
qed

theorem convertSkills_one_result_per_entry_witness:
  "length (projr (fst (convertSkills sample_batch [''claude''] M_symlink R_skip
                          (\<lambda>i. i) sample_disk))) = 3 \<and>
   map (\<lambda>r. (name (skill r), success r, action r))
     (projr (fst (convertSkills sample_batch [''claude''] M_symlink R_skip
                          (\<lambda>i. i) sample_disk))) =
     [(''plain'', True, A_symlinked), (''nonexistent'', False, A_skipped),
      (''sub1'', True, A_symlinked)] \<and>
   error (projr (fst (convertSkills sample_batch [''claude''] M_symlink R_skip
                          (\<lambda>i. i) sample_disk)) ! 1) =
     Some ''Failed to convert skill nonexistent: Error: ENOENT''"
proof -
  let ?Y = "convertSkills sample_batch [''claude''] M_symlink R_skip (\<lambda>i. i) sample_disk"
  from convertSkills_one_result_per_entry[of sample_batch "[''claude'']" M_symlink R_skip
      "(\<lambda>i. i)" sample_disk]
  obtain rs root' where run: "?Y = (Inr rs, root')" and len: "length rs = length sample_batch"
    and nth: "\<forall>i < length sample_batch.
        rs ! i =
          (case fst (convertSkill (sample_batch ! i) [''claude''] M_symlink R_skip i
                      (disk_before sample_batch [''claude''] M_symlink R_skip (\<lambda>i. i)
                         sample_disk i)) of
             Inl msg \<Rightarrow> \<lparr>skill = sample_batch ! i, success = False, action = A_skipped,
                          error = Some msg,
                          targetPath = path_join [''claude''] (name (sample_batch ! i))\<rparr>
           | Inr res \<Rightarrow> res)"
    by blast
  have l3: "length sample_batch = 3" by (simp add: sample_batch_def)
  from run have pr: "projr (fst ?Y) = rs" by simp
  have "(1::nat) < length sample_batch" using l3 by simp
  with nth have "rs ! 1 = (case fst (convertSkill (sample_batch ! 1) [''claude''] M_symlink R_skip 1
                      (disk_before sample_batch [''claude''] M_symlink R_skip (\<lambda>i. i)
                         sample_disk 1)) of
             Inl msg \<Rightarrow> \<lparr>skill = sample_batch ! 1, success = False, action = A_skipped,
                          error = Some msg,
                          targetPath = path_join [''claude''] (name (sample_batch ! 1))\<rparr>
           | Inr res \<Rightarrow> res)" by blast
  also have "\<dots> = \<lparr>skill = sample_batch ! 1, success = False, action = A_skipped,
                          error = Some ''Failed to convert skill nonexistent: Error: ENOENT'',
                          targetPath = [''claude'', ''nonexistent'']\<rparr>"
    by code_simp
  finally have e: "error (rs ! 1) = Some ''Failed to convert skill nonexistent: Error: ENOENT''"
    by simp
  have m: "map (\<lambda>r. (name (skill r), success r, action r)) (projr (fst ?Y)) =
     [(''plain'', True, A_symlinked), (''nonexistent'', False, A_skipped),
      (''sub1'', True, A_symlinked)]"
    by code_simp
  from len l3 pr e m show ?thesis by simp
qed

text \<open>
  Claim C9. A result that \<^verbatim>\<open>convertSkill\<close> or \<^verbatim>\<open>convertSkills\<close> returns has one of the
  actions \<^verbatim>\<open>symlinked\<close>, \<^verbatim>\<open>copied\<close>, \<^verbatim>\<open>moved\<close> and \<^verbatim>\<open>skipped\<close>, never
  \<^verbatim>\<open>backed-up\<close>. With the conflict policy \<^verbatim>\<open>backup\<close> the action is that of the mode
  that ran; the one other result under that policy is the early return of a link that
  is already in place.
\<close>

theorem conversion_action_never_backed_up:
  "(convertSkill sk td mode cr now root = (Inr r, root') \<longrightarrow>
      action r \<in> {A_symlinked, A_copied, A_moved, A_skipped} \<and>
      (cr = R_backup \<longrightarrow>
         action r = (case mode of M_symlink \<Rightarrow> A_symlinked | M_copy \<Rightarrow> A_copied
                      | M_move \<Rightarrow> A_moved) \<or>
         mode = M_symlink \<and> action r = A_skipped \<and> error r = Some ''Already linked'')) \<and>
   (convertSkills sks td mode cr clock root = (Inr rs, root'') \<longrightarrow>
      (\<forall>x \<in> set rs. action x \<in> {A_symlinked, A_copied, A_moved, A_skipped}))"
proof (intro conjI impI ballI)
  assume run: "convertSkill sk td mode cr now root = (Inr r, root')"
  from convertSkill_try_result[OF convertSkill_Inr[OF run]]
  show "action r \<in> {A_symlinked, A_copied, A_moved, A_skipped}"
    by (cases mode) auto
  assume "cr = R_backup"
  with convertSkill_try_result[OF convertSkill_Inr[OF run]]
  show "action r = (case mode of M_symlink \<Rightarrow> A_symlinked | M_copy \<Rightarrow> A_copied
                      | M_move \<Rightarrow> A_moved) \<or>
         mode = M_symlink \<and> action r = A_skipped \<and> error r = Some ''Already linked''"
    by auto
next
  fix x
  assume run: "convertSkills sks td mode cr clock root = (Inr rs, root'')"
    and x: "x \<in> set rs"
  from convertSkills_total[of sks td mode cr clock root] run
  have len: "length rs = length sks" by simp
  from x obtain i where i: "i < length rs" and xi: "x = rs ! i"
    by (auto simp: in_set_conv_nth)
  from i len have i': "i < length sks" by simp
  let ?c = "convertSkill (sks ! i) td mode cr (clock i) (disk_before sks td mode cr clock root i)"
  show "action x \<in> {A_symlinked, A_copied, A_moved, A_skipped}"
  proof (cases ?c)
    case (Pair out d)
    show ?thesis
    proof (cases out)
      case (Inl msg)
      with Pair convertSkills_nth[OF run i'] xi show ?thesis by simp
    next
      case (Inr res)
      with Pair have "?c = (Inr res, d)" by simp
      from convertSkill_try_result[OF convertSkill_Inr[OF this]]
      have "action res \<in> {A_symlinked, A_copied, A_moved, A_skipped}"
        by (cases mode) auto
      with Pair Inr convertSkills_nth[OF run i'] xi show ?thesis by simp
    qed
  qed
qed

theorem conversion_action_never_backed_up_witness:
  "\<not> isl (fst (convertSkill (mock_skill ''plain'' [''real'', ''store'']) [''agents'']
                  M_copy R_backup 7 sample_disk)) \<and>
   existsSync (snd (convertSkill (mock_skill ''plain'' [''real'', ''store'']) [''agents'']
                  M_copy R_backup 7 sample_disk)) [''agents'', ''_backup'', ''plain-7'', ''run.sh''] \<and>
   action (projr (fst (convertSkill (mock_skill ''plain'' [''real'', ''store'']) [''agents'']
                  M_copy R_backup 7 sample_disk))) = A_copied \<and>
   \<not> isl (fst (convertSkills sample_batch [''claude''] M_symlink R_skip (\<lambda>i. i) sample_disk)) \<and>
   A_backed_up \<notin> action ` set (projr (fst
      (convertSkills sample_batch [''claude''] M_symlink R_skip (\<lambda>i. i) sample_disk)))"
proof -
  let ?X = "convertSkill (mock_skill ''plain'' [''real'', ''store'']) [''agents'']
                  M_copy R_backup 7 sample_disk"
  let ?Y = "convertSkills sample_batch [''claude''] M_symlink R_skip (\<lambda>i. i) sample_disk"
  have x: "\<not> isl (fst ?X)" by code_simp
  have b: "existsSync (snd ?X) [''agents'', ''_backup'', ''plain-7'', ''run.sh'']" by code_simp
  have y: "\<not> isl (fst ?Y)" by code_simp
  from x have X: "?X = (Inr (projr (fst ?X)), snd ?X)" by (simp add: prod_eq_iff)
  from y have Y: "?Y = (Inr (projr (fst ?Y)), snd ?Y)" by (simp add: prod_eq_iff)
  from conversion_action_never_backed_up[where sk = "mock_skill ''plain'' [''real'', ''store'']"
      and td = "[''agents'']" and mode = M_copy and cr = R_backup and now = 7
      and root = sample_disk and r = "projr (fst ?X)" and root' = "snd ?X"] X
  have 1: "action (projr (fst ?X)) = A_copied" by simp
  from conversion_action_never_backed_up[where sks = sample_batch and td = "[''claude'']"
      and mode = M_symlink and cr = R_skip and clock = "\<lambda>i. i" and root = sample_disk
      and rs = "projr (fst ?Y)" and root'' = "snd ?Y"] Y
  have 2: "\<forall>x \<in> set (projr (fst ?Y)). action x \<in> {A_symlinked, A_copied, A_moved, A_skipped}"
    by simp
  then have "A_backed_up \<notin> action ` set (projr (fst ?Y))" by auto
  with x b y 1 show ?thesis by simp
qed

section \<open>What a successful lookup implies\<close>

lemma get_butlast_exists: "get root p \<noteq> None \<Longrightarrow> get root (butlast p) \<noteq> None"
proof (cases "p = []")
  case True
  then show ?thesis by simp
next
  case False
  assume g: "get root p \<noteq> None"
  from False have "p = butlast p @ [last p]" by simp
  then have "get root (butlast p @ [last p]) \<noteq> None" using g by simp
  then show ?thesis
    by (auto simp: get_snoc split: option.splits)
qed

lemma walk_exists:
  "get root cur \<noteq> None \<Longrightarrow> walk fl fuel root cur rest = Inr q \<Longrightarrow> get root q \<noteq> None"
proof (induction fl fuel root cur rest rule: walk.induct)
  case (1 follow fuel root cur)
  then show ?case by simp
next
  case (2 follow fuel root cur c cs)
  from "2.prems" obtain r es where d: "get root cur = Some (Dir r es)"
    by (auto split: option.splits node.splits)
  have bl: "get root (butlast cur) \<noteq> None"
    using "2.prems"(1) by (rule get_butlast_exists)
  have child: "\<And>ch. map_of es c = Some ch \<Longrightarrow> get root (cur @ [c]) \<noteq> None"
    by (simp add: get_snoc d)
  from "2.prems" "2.IH" d bl child show ?case
    by (auto split: option.splits node.splits if_splits)
qed

lemma walk_parent_nofollow:
  "walk True fuel root cur (rest @ [n]) = Inr q \<Longrightarrow> \<exists>q'. walk False fuel root cur rest = Inr q'"
proof (induction "False" fuel root cur rest rule: walk.induct)
  case (1 fuel root cur)
  then show ?case by simp
next
  case (2 fuel root cur c cs)
  from "2.prems" "2.hyps" show ?case
    by (auto split: option.splits node.splits if_splits)
qed

lemma exists_child_lstat:
  assumes "existsSync root (p @ [n])"
  shows "\<exists>st. lstatSync root p = Inr st"
proof -
  from assms obtain q where "walk True symloop_max root [] (p @ [n]) = Inr q"
    by (auto simp: existsSync_def statSync_def node_at_def resolve_def
        split: sum.splits option.splits)
  from walk_parent_nofollow[OF this] obtain q' where
    w: "walk False symloop_max root [] p = Inr q'" by blast
  have "get root [] \<noteq> None" by simp
  from walk_exists[OF this w] obtain nd where "get root q' = Some nd" by auto
  with w show ?thesis
    by (simp add: lstatSync_def node_at_def resolve_def)
qed

lemma analyzeSkill_clean:
  assumes "clean p"
  shows "analyzeSkill yp root p = Inr None \<and> \<not> existsSync root (p @ [''SKILL.md'']) \<or>
         (\<exists>sk. analyzeSkill yp root p = Inr (Some sk) \<and> existsSync root (p @ [''SKILL.md'']) \<and>
            name sk = path_basename p \<and> path sk = p \<and>
            sizeKb sk = getDirectorySizeKb root p)"
proof -
  have v: "valid_name ''SKILL.md''" by (simp add: valid_name_def)
  have pj: "path_join p ''SKILL.md'' = p @ [''SKILL.md'']"
    using assms v by (rule path_join_clean_valid)
  show ?thesis
  proof (cases "existsSync root (p @ [''SKILL.md''])")
    case False
    then show ?thesis by (simp add: analyzeSkill_def Let_def pj)
  next
    case True
    from exists_child_lstat[OF True] obtain st where "lstatSync root p = Inr st" by blast
    with True show ?thesis by (simp add: analyzeSkill_def Let_def pj)
  qed
qed

section \<open>The scan, entry by entry\<close>

lemma nestedLoop_acc:
  "snd (nestedLoop yp root sp en es acc) = acc @ snd (nestedLoop yp root sp en es [])"
proof (induction es arbitrary: acc)
  case Nil
  then show ?case by simp
next
  case (Cons e es)
  show ?case
  proof (cases "snd e \<noteq> DirK")
    case True
    with Cons[of acc] show ?thesis by simp
  next
    case False
    show ?thesis
    proof (cases "analyzeSkill yp root (path_join sp (fst e))")
      case (Inl x)
      with False show ?thesis by simp
    next
      case (Inr r)
      show ?thesis
      proof (cases r)
        case None
        with Inr False Cons[of acc] show ?thesis by simp
      next
        case (Some sk)
        with Inr False Cons[of "acc @ [sk\<lparr>name := en @ ''-'' @ name sk\<rparr>]"]
          Cons[of "[sk\<lparr>name := en @ ''-'' @ name sk\<rparr>]"]
        show ?thesis by simp
      qed
    qed
  qed
qed

lemma analyzeSkill_join_total:
  "\<exists>r. analyzeSkill yp root (path_join dir s) = Inr r"
  using analyzeSkill_clean[OF path_join_clean, of yp root dir s] by blast

lemma entry_skills_eq:
  "entry_skills yp root dir e =
     (if (snd e \<noteq> DirK \<and> snd e \<noteq> LinkK) \<or> startsWith_underscore (fst e) then []
      else
        (case (if snd e = LinkK then realpathSync root (path_join dir (fst e))
               else Inr (path_join dir (fst e))) of
           Inl x \<Rightarrow> []
         | Inr actualPath \<Rightarrow>
             if existsSync root (path_join actualPath ''SKILL.md'') then
               (case analyzeSkill yp root (path_join dir (fst e)) of
                  Inl x \<Rightarrow> []
                | Inr None \<Rightarrow> []
                | Inr (Some sk) \<Rightarrow> [sk])
             else
               (case readdirSync root actualPath of
                  Inl x \<Rightarrow> []
                | Inr nestedEntries \<Rightarrow>
                    snd (nestedLoop yp root (path_join dir (fst e)) (fst e)
                           nestedEntries []))))"
  by (simp add: entry_skills_def Let_def split: sum.splits option.splits)

lemma detectLoop_step:
  "detectLoop yp root dir (e # es) acc =
   detectLoop yp root dir es (acc @ entry_skills yp root dir e)"
proof -
  from analyzeSkill_join_total obtain r where
    a: "analyzeSkill yp root (path_join dir (fst e)) = Inr r" by blast
  show ?thesis
    using a nestedLoop_acc[of yp root "path_join dir (fst e)" "fst e" _ acc]
    by (simp add: entry_skills_eq Let_def split: sum.splits option.splits)
qed

lemma detectLoop_eq:
  "detectLoop yp root dir es acc = Inr (acc @ concat (map (entry_skills yp root dir) es))"
proof (induction es arbitrary: acc)
  case Nil
  then show ?case by simp
next
  case (Cons e es)
  show ?case
    by (simp only: detectLoop_step Cons) simp
qed

lemma detectSkills_eq:
  "detectSkills yp root dir =
     (if \<not> existsSync root dir then Inr []
      else (case readdirSync root dir of
              Inl e \<Rightarrow> Inl (''Failed to detect skills: '' @ show_error e)
            | Inr es \<Rightarrow> Inr (concat (map (entry_skills yp root dir) es))))"
  by (simp add: detectSkills_def detectLoop_eq split: sum.splits)

lemma listing_fst_subset: "fst ` set (listing es) \<subseteq> fst ` set es"
  using listing_subset[of es] by (rule image_mono)

lemma listing_distinct: "distinct (map fst (listing es))"
proof (induction es rule: listing.induct)
  case 1
  then show ?case by simp
next
  case (2 n ch es)
  have "fst ` set (listing (filter (\<lambda>e. fst e \<noteq> n) es)) \<subseteq>
        fst ` set (filter (\<lambda>e. fst e \<noteq> n) es)"
    by (rule listing_fst_subset)
  moreover have "n \<notin> fst ` set (filter (\<lambda>e. fst e \<noteq> n) es)"
    by (induction es) simp_all
  ultimately have notin: "n \<notin> fst ` set (listing (filter (\<lambda>e. fst e \<noteq> n) es))"
    by (rule contra_subsetD)
  show ?case
  proof (cases "valid_name n")
    case True
    with 2(1) notin show ?thesis by simp
  next
    case False
    with 2(2) show ?thesis by simp
  qed
qed

lemma readdir_listing:
  assumes "readdirSync root p = Inr es"
  shows "\<exists>xs. node_at True root p = Inr (Dir True xs) \<and>
           es = map (\<lambda>e. (fst e, kind_of (snd e))) (listing xs)"
proof (cases "node_at True root p")
  case (Inl x)
  with assms show ?thesis by (simp add: readdirSync_def)
next
  case (Inr n)
  with assms show ?thesis
    by (cases n) (simp_all add: readdirSync_def split: if_splits)
qed

lemma readdir_valid:
  assumes rd: "readdirSync root p = Inr es" and e: "e \<in> set es"
  shows "valid_name (fst e)"
proof -
  from readdir_listing[OF rd] obtain xs where
    "es = map (\<lambda>e. (fst e, kind_of (snd e))) (listing xs)" by blast
  with e obtain x where "x \<in> set (listing xs)" "fst e = fst x" by auto
  then show ?thesis using listing_mem[of "fst x" "snd x" xs] by simp
qed

lemma readdir_distinct:
  assumes rd: "readdirSync root p = Inr es"
  shows "distinct (map fst es)"
proof -
  from readdir_listing[OF rd] obtain xs where
    es: "es = map (\<lambda>e. (fst e, kind_of (snd e))) (listing xs)" by blast
  have "map fst es = map fst (listing xs)" unfolding es by (simp add: o_def)
  then show ?thesis by (simp add: listing_distinct)
qed

lemma readdir_exists:
  assumes rd: "readdirSync root p = Inr es"
  shows "existsSync root p"
proof -
  from readdir_listing[OF rd] obtain xs where "node_at True root p = Inr (Dir True xs)"
    by blast
  then show ?thesis by (simp add: existsSync_def statSync_def)
qed

lemma basename_snoc: "path_basename (p @ [n]) = n"
  by (simp add: path_basename_def)

lemma nestedLoop_exact:
  assumes "clean sp" and "\<forall>x \<in> set nes. valid_name (fst x)"
  shows "map (\<lambda>s. (name s, path s)) (snd (nestedLoop yp root sp en nes [])) =
         map (\<lambda>m. (en @ ''-'' @ m, sp @ [m]))
           (map fst (filter (\<lambda>x. snd x = DirK \<and> existsSync root (sp @ [fst x, ''SKILL.md''])) nes))"
  using assms(2)
proof (induction nes)
  case Nil
  then show ?case by simp
next
  case (Cons e nes)
  then have v: "valid_name (fst e)" and IH: "map (\<lambda>s. (name s, path s)) (snd (nestedLoop yp root sp en nes [])) =
         map (\<lambda>m. (en @ ''-'' @ m, sp @ [m]))
           (map fst (filter (\<lambda>x. snd x = DirK \<and> existsSync root (sp @ [fst x, ''SKILL.md''])) nes))"
    by simp_all
  have pj: "path_join sp (fst e) = sp @ [fst e]"
    using assms(1) v by (rule path_join_clean_valid)
  have cl: "clean (sp @ [fst e])"
    using assms(1) v by (simp add: valid_name_def)
  show ?case
  proof (cases "snd e = DirK")
    case False
    with IH show ?thesis by simp
  next
    case True
    from analyzeSkill_clean[OF cl, of yp root]
    show ?thesis
    proof
      assume "analyzeSkill yp root (sp @ [fst e]) = Inr None \<and>
              \<not> existsSync root ((sp @ [fst e]) @ [''SKILL.md''])"
      with True IH pj show ?thesis by simp
    next
      assume "\<exists>sk. analyzeSkill yp root (sp @ [fst e]) = Inr (Some sk) \<and>
                existsSync root ((sp @ [fst e]) @ [''SKILL.md'']) \<and>
                name sk = path_basename (sp @ [fst e]) \<and> path sk = sp @ [fst e] \<and>
                sizeKb sk = getDirectorySizeKb root (sp @ [fst e])"
      then obtain sk where a: "analyzeSkill yp root (sp @ [fst e]) = Inr (Some sk)"
        and ex: "existsSync root (sp @ [fst e, ''SKILL.md''])"
        and nm: "name sk = fst e" and pa: "path sk = sp @ [fst e]"
        by (auto simp: basename_snoc)
      have "snd (nestedLoop yp root sp en (e # nes) []) =
            [sk\<lparr>name := en @ ''-'' @ name sk\<rparr>] @ snd (nestedLoop yp root sp en nes [])"
        using True a pj nestedLoop_acc[of yp root sp en nes "[sk\<lparr>name := en @ ''-'' @ name sk\<rparr>]"]
        by simp
      with True ex nm pa IH show ?thesis by simp
    qed
  qed
qed



text \<open>Where an entry that one iteration pushes lies, and what it is called.\<close>

lemma entry_skills_mem:
  assumes s: "s \<in> set (entry_skills yp root dir e)" and v: "valid_name (fst e)"
  shows "\<not> startsWith_underscore (fst e) \<and>
         (name s = fst e \<and> path s = path_normalize dir @ [fst e] \<or>
          (\<exists>m. valid_name m \<and> name s = fst e @ ''-'' @ m \<and>
               path s = path_normalize dir @ [fst e, m]))"
proof -
  let ?sp = "path_join dir (fst e)"
  have sp: "?sp = path_normalize dir @ [fst e]" using v by (rule path_join_valid)
  have cl: "clean ?sp" by simp
  from s have nu: "\<not> startsWith_underscore (fst e)"
    by (auto simp: entry_skills_eq split: if_splits)
  define act where "act = (if snd e = LinkK then realpathSync root ?sp else Inr ?sp)"
  from s nu have k: "snd e = DirK \<or> snd e = LinkK"
    by (auto simp: entry_skills_eq split: if_splits)
  have skip: "\<not> ((snd e \<noteq> DirK \<and> snd e \<noteq> LinkK) \<or> startsWith_underscore (fst e))"
    using nu k by auto
  have "entry_skills yp root dir e = (case act of
           Inl x \<Rightarrow> []
         | Inr actualPath \<Rightarrow>
             if existsSync root (path_join actualPath ''SKILL.md'') then
               (case analyzeSkill yp root ?sp of
                  Inl x \<Rightarrow> []
                | Inr None \<Rightarrow> []
                | Inr (Some sk) \<Rightarrow> [sk])
             else
               (case readdirSync root actualPath of
                  Inl x \<Rightarrow> []
                | Inr nestedEntries \<Rightarrow>
                    snd (nestedLoop yp root ?sp (fst e) nestedEntries [])))"
    unfolding act_def by (subst entry_skills_eq) (simp only: skip if_False)
  with s have s': "s \<in> set (case act of
           Inl x \<Rightarrow> []
         | Inr actualPath \<Rightarrow>
             if existsSync root (path_join actualPath ''SKILL.md'') then
               (case analyzeSkill yp root ?sp of
                  Inl x \<Rightarrow> []
                | Inr None \<Rightarrow> []
                | Inr (Some sk) \<Rightarrow> [sk])
             else
               (case readdirSync root actualPath of
                  Inl x \<Rightarrow> []
                | Inr nestedEntries \<Rightarrow>
                    snd (nestedLoop yp root ?sp (fst e) nestedEntries [])))"
    by simp
  then obtain ap where act: "act = Inr ap" by (cases act) auto
  with s' have
    body: "s \<in> set (if existsSync root (path_join ap ''SKILL.md'') then
               (case analyzeSkill yp root ?sp of
                  Inl x \<Rightarrow> []
                | Inr None \<Rightarrow> []
                | Inr (Some sk) \<Rightarrow> [sk])
             else
               (case readdirSync root ap of
                  Inl x \<Rightarrow> []
                | Inr nestedEntries \<Rightarrow>
                    snd (nestedLoop yp root ?sp (fst e) nestedEntries [])))"
    by simp
  show ?thesis
  proof (cases "existsSync root (path_join ap ''SKILL.md'')")
    case True
    with body have "s \<in> set (case analyzeSkill yp root ?sp of
                  Inl x \<Rightarrow> []
                | Inr None \<Rightarrow> []
                | Inr (Some sk) \<Rightarrow> [sk])" by simp
    then have "analyzeSkill yp root ?sp = Inr (Some s)"
      by (cases "analyzeSkill yp root ?sp") (auto split: option.splits)
    with analyzeSkill_clean[OF cl, of yp root] have "name s = path_basename ?sp" "path s = ?sp"
      by auto
    with sp nu show ?thesis by (simp add: basename_snoc)
  next
    case False
    with body have "s \<in> set (case readdirSync root ap of
                  Inl x \<Rightarrow> []
                | Inr nestedEntries \<Rightarrow>
                    snd (nestedLoop yp root ?sp (fst e) nestedEntries []))" by simp
    then obtain nes where rd: "readdirSync root ap = Inr nes"
      and mem: "s \<in> set (snd (nestedLoop yp root ?sp (fst e) nes []))"
      by (cases "readdirSync root ap") auto
    have vs: "\<forall>x \<in> set nes. valid_name (fst x)"
      using readdir_valid[OF rd] by blast
    from mem have "(name s, path s) \<in> set (map (\<lambda>s. (name s, path s))
        (snd (nestedLoop yp root ?sp (fst e) nes [])))" by force
    then obtain x where "x \<in> set nes" "name s = fst e @ ''-'' @ fst x" "path s = ?sp @ [fst x]"
      unfolding nestedLoop_exact[OF cl vs] by auto
    with vs sp nu show ?thesis by auto
  qed
qed

lemma entry_skills_dangling: "dangling_link root dir e \<Longrightarrow> entry_skills yp root dir e = []"
  by (cases "realpathSync root (path_join dir (fst e))")
     (simp_all add: dangling_link_def entry_skills_eq)

lemma concat_map_filter_empty:
  "(\<And>x. x \<in> set xs \<Longrightarrow> \<not> P x \<Longrightarrow> f x = []) \<Longrightarrow>
   concat (map f (filter P xs)) = concat (map f xs)"
  by (induction xs) auto

section \<open>Claims about the detector\<close>

text \<open>
  Claim C5, as it is written, fails: not every condition yields a sequence of entries.
  \<^verbatim>\<open>detectSkills\<close> is \<^verbatim>\<open>Effect.try\<close>; when the root exists and cannot be listed, the
  exception of \<^verbatim>\<open>readdirSync\<close> is caught and the effect fails. On the sample disk the
  root \<^verbatim>\<open>/agents/notes.txt\<close> is a regular file.
\<close>

theorem detectSkills_file_root_counterexample:
  "detectSkills sample_yaml sample_disk [''agents'', ''notes.txt'']
   = Inl ''Failed to detect skills: Error: ENOTDIR''"
  by code_simp

text \<open>
  Claim C5, amended. Running \<^verbatim>\<open>detectSkills\<close> never throws. A missing root gives the
  empty sequence. A root that can be listed gives a sequence of entries, the same
  sequence that the loop gives on the listing without its dangling links: they are
  skipped and leave no trace. A root that exists and cannot be listed (it is not a
  directory, or it cannot be read) makes the effect fail with the message
  \<^verbatim>\<open>Failed to detect skills: <exception>\<close>.
\<close>

theorem detectSkills_outcomes:
  "(\<not> existsSync root dir \<longrightarrow> detectSkills yp root dir = Inr []) \<and>
   (\<forall>es. readdirSync root dir = Inr es \<longrightarrow>
      (\<exists>skills. detectSkills yp root dir = Inr skills \<and>
         detectLoop yp root dir (filter (\<lambda>e. \<not> dangling_link root dir e) es) [] =
           Inr skills)) \<and>
   (\<forall>e. existsSync root dir \<and> readdirSync root dir = Inl e \<longrightarrow>
      detectSkills yp root dir = Inl (''Failed to detect skills: '' @ show_error e))"
proof (intro conjI allI impI)
  assume "\<not> existsSync root dir"
  then show "detectSkills yp root dir = Inr []" by (simp add: detectSkills_eq)
next
  fix es
  assume rd: "readdirSync root dir = Inr es"
  then have ex: "existsSync root dir" by (rule readdir_exists)
  have "concat (map (entry_skills yp root dir) (filter (\<lambda>e. \<not> dangling_link root dir e) es)) =
        concat (map (entry_skills yp root dir) es)"
    by (rule concat_map_filter_empty) (simp add: entry_skills_dangling)
  with rd ex show "\<exists>skills. detectSkills yp root dir = Inr skills \<and>
         detectLoop yp root dir (filter (\<lambda>e. \<not> dangling_link root dir e) es) [] =
           Inr skills"
    by (simp add: detectSkills_eq detectLoop_eq)
next
  fix e
  assume "existsSync root dir \<and> readdirSync root dir = Inl e"
  then show "detectSkills yp root dir = Inl (''Failed to detect skills: '' @ show_error e)"
    by (simp add: detectSkills_eq)
qed

theorem detectSkills_outcomes_witness:
  "\<not> existsSync sample_disk [''missing''] \<and>
   detectSkills sample_yaml sample_disk [''missing''] = Inr [] \<and>
   dangling_link sample_disk [''agents''] (''dangling'', LinkK) \<and>
   map name (projr (detectSkills sample_yaml sample_disk [''agents''])) =
     [''linked-skill'', ''plain'', ''group-sub1'', ''group-sub2''] \<and>
   detectLoop sample_yaml sample_disk [''agents'']
     [(''linked-skill'', LinkK), (''plain'', DirK), (''_backup'', DirK),
      (''notes.txt'', FileK), (''group'', DirK)] [] =
     Inr (projr (detectSkills sample_yaml sample_disk [''agents''])) \<and>
   existsSync sample_disk [''agents'', ''notes.txt''] \<and>
   detectSkills sample_yaml sample_disk [''agents'', ''notes.txt''] =
     Inl ''Failed to detect skills: Error: ENOTDIR''"
proof -
  have a: "\<not> existsSync sample_disk [''missing'']" by code_simp
  have b: "readdirSync sample_disk [''agents''] =
     Inr [(''linked-skill'', LinkK), (''plain'', DirK), (''_backup'', DirK),
          (''dangling'', LinkK), (''notes.txt'', FileK), (''group'', DirK)]"
    by code_simp
  have c: "existsSync sample_disk [''agents'', ''notes.txt''] \<and>
           readdirSync sample_disk [''agents'', ''notes.txt''] = Inl ENOTDIR"
    by code_simp
  have d: "dangling_link sample_disk [''agents''] (''dangling'', LinkK)" by code_simp
  have f: "filter (\<lambda>e. \<not> dangling_link sample_disk [''agents''] e)
             [(''linked-skill'', LinkK), (''plain'', DirK), (''_backup'', DirK),
              (''dangling'', LinkK), (''notes.txt'', FileK), (''group'', DirK)] =
           [(''linked-skill'', LinkK), (''plain'', DirK), (''_backup'', DirK),
            (''notes.txt'', FileK), (''group'', DirK)]"
    by code_simp
  have n: "map name (projr (detectSkills sample_yaml sample_disk [''agents''])) =
     [''linked-skill'', ''plain'', ''group-sub1'', ''group-sub2'']"
    by code_simp
  from detectSkills_outcomes[of sample_disk "[''missing'']" sample_yaml] a
  have 1: "detectSkills sample_yaml sample_disk [''missing''] = Inr []" by blast
  from detectSkills_outcomes[of sample_disk "[''agents'']" sample_yaml] b
  obtain skills where "detectSkills sample_yaml sample_disk [''agents''] = Inr skills"
    and "detectLoop sample_yaml sample_disk [''agents'']
           (filter (\<lambda>e. \<not> dangling_link sample_disk [''agents''] e)
             [(''linked-skill'', LinkK), (''plain'', DirK), (''_backup'', DirK),
              (''dangling'', LinkK), (''notes.txt'', FileK), (''group'', DirK)]) [] = Inr skills"
    by blast
  with f have 2: "detectLoop sample_yaml sample_disk [''agents'']
     [(''linked-skill'', LinkK), (''plain'', DirK), (''_backup'', DirK),
      (''notes.txt'', FileK), (''group'', DirK)] [] =
     Inr (projr (detectSkills sample_yaml sample_disk [''agents'']))" by simp
  from detectSkills_outcomes[of sample_disk "[''agents'', ''notes.txt'']" sample_yaml] c
  have 3: "detectSkills sample_yaml sample_disk [''agents'', ''notes.txt''] =
     Inl ''Failed to detect skills: Error: ENOTDIR''" by simp
  from a 1 d n 2 c 3 show ?thesis by simp
qed

lemma filter_concat_map_empty:
  "(\<And>x s. x \<in> set xs \<Longrightarrow> s \<in> set (f x) \<Longrightarrow> \<not> P s) \<Longrightarrow>
   filter P (concat (map f xs)) = []"
  by (induction xs) (auto simp: filter_empty_conv)

lemma filter_all: "(\<And>s. s \<in> set xs \<Longrightarrow> P s) \<Longrightarrow> filter P xs = xs"
  by (induction xs) auto

text \<open>Entries pushed for another child of the root do not lie below the child \<open>g\<close>.\<close>

lemma entry_skills_elsewhere:
  assumes s: "s \<in> set (entry_skills yp root dir e)" and ve: "valid_name (fst e)"
    and vg: "valid_name g" and ne: "fst e \<noteq> g"
  shows "take (length (path_join dir g)) (path s) \<noteq> path_join dir g"
proof -
  have pg: "path_join dir g = path_normalize dir @ [g]" using vg by (rule path_join_valid)
  from entry_skills_mem[OF s ve]
  have "path s = path_normalize dir @ [fst e] \<or>
        (\<exists>m. path s = path_normalize dir @ [fst e, m])" by blast
  then show ?thesis using ne pg by auto
qed

text \<open>What the iteration for a directory \<open>g\<close> pushes, in the two cases of the claim.\<close>

lemma entry_skills_direct:
  assumes vg: "valid_name g" and nu: "\<not> startsWith_underscore g"
    and ex: "existsSync root (path_join (path_join dir g) ''SKILL.md'')"
  shows "map (\<lambda>s. (name s, path s)) (entry_skills yp root dir (g, DirK)) =
         [(g, path_join dir g)]"
proof -
  let ?D = "path_join dir g"
  have cl: "clean ?D" by simp
  have pj: "path_join ?D ''SKILL.md'' = ?D @ [''SKILL.md'']"
    using cl by (rule path_join_clean_valid) (simp add: valid_name_def)
  have pg: "?D = path_normalize dir @ [g]" using vg by (rule path_join_valid)
  from analyzeSkill_clean[OF cl, of yp root] ex pj obtain sk where
    a: "analyzeSkill yp root ?D = Inr (Some sk)" and "name sk = path_basename ?D"
    and pa: "path sk = ?D"
    by auto
  then have nm: "name sk = g" by (simp add: pg basename_snoc)
  have "entry_skills yp root dir (g, DirK) = [sk]"
    using nu ex a by (simp add: entry_skills_eq)
  with nm pa show ?thesis by simp
qed

lemma entry_skills_group:
  assumes vg: "valid_name g" and nu: "\<not> startsWith_underscore g"
    and nex: "\<not> existsSync root (path_join (path_join dir g) ''SKILL.md'')"
    and rd: "readdirSync root (path_join dir g) = Inr sub"
  shows "map (\<lambda>s. (name s, path s)) (entry_skills yp root dir (g, DirK)) =
         map (\<lambda>m. (g @ ''-'' @ m, path_join (path_join dir g) m))
           (map fst (filter (\<lambda>x. snd x = DirK \<and>
              existsSync root (path_join (path_join (path_join dir g) (fst x)) ''SKILL.md''))
              sub))"
proof -
  let ?D = "path_join dir g"
  have cl: "clean ?D" by simp
  have vs: "\<forall>x \<in> set sub. valid_name (fst x)" using readdir_valid[OF rd] by blast
  have md: "valid_name ''SKILL.md''" by (simp add: valid_name_def)
  have j1: "\<And>x. x \<in> set sub \<Longrightarrow> path_join ?D (fst x) = ?D @ [fst x]"
    using cl vs by (simp add: path_join_clean_valid)
  have j2: "\<And>x. x \<in> set sub \<Longrightarrow>
       path_join (path_join ?D (fst x)) ''SKILL.md'' = ?D @ [fst x, ''SKILL.md'']"
  proof -
    fix x assume x: "x \<in> set sub"
    then have "clean (?D @ [fst x])" using cl vs by (simp add: valid_name_def)
    then have "path_join (?D @ [fst x]) ''SKILL.md'' = (?D @ [fst x]) @ [''SKILL.md'']"
      using md by (rule path_join_clean_valid)
    with j1[OF x] show "path_join (path_join ?D (fst x)) ''SKILL.md'' = ?D @ [fst x, ''SKILL.md'']"
      by simp
  qed
  have f: "filter (\<lambda>x. snd x = DirK \<and>
              existsSync root (path_join (path_join ?D (fst x)) ''SKILL.md'')) sub =
           filter (\<lambda>x. snd x = DirK \<and> existsSync root (?D @ [fst x, ''SKILL.md''])) sub"
    by (rule filter_cong) (simp_all add: j2)
  have m: "map (\<lambda>m. (g @ ''-'' @ m, path_join ?D m))
             (map fst (filter (\<lambda>x. snd x = DirK \<and> existsSync root (?D @ [fst x, ''SKILL.md''])) sub)) =
           map (\<lambda>m. (g @ ''-'' @ m, ?D @ [m]))
             (map fst (filter (\<lambda>x. snd x = DirK \<and> existsSync root (?D @ [fst x, ''SKILL.md''])) sub))"
    using j1 by (auto simp: map_eq_conv)
  have "entry_skills yp root dir (g, DirK) = snd (nestedLoop yp root ?D g sub [])"
    using nu nex rd by (simp add: entry_skills_eq)
  then show ?thesis
    by (simp only: f m nestedLoop_exact[OF cl vs])
qed

text \<open>
  Claim C4. Let \<open>g\<close> be a directory that the listing of the root shows, its name
  without the reserved prefix (as \<^verbatim>\<open>group\<close> is). If \<open>g\<close> has no manifest of its own and
  the subdirectories of \<open>g\<close> that have one are \<open>sub1\<close> and \<open>sub2\<close>, in the order of
  the listing, then the entries of the scan that lie at or below \<open>g\<close> are exactly two,
  named \<open>g-sub1\<close> and \<open>g-sub2\<close>. If \<open>g\<close> has a manifest of its own, the scan has
  exactly one entry at or below \<open>g\<close>: \<open>g\<close> itself, under the name \<open>g\<close>, and nothing from
  its subdirectories.
\<close>

theorem grouping_detection:
  assumes rd: "readdirSync root dir = Inr es" and g: "(g, DirK) \<in> set es"
    and nu: "\<not> startsWith_underscore g"
  shows "(\<not> existsSync root (path_join (path_join dir g) ''SKILL.md'') \<and>
          readdirSync root (path_join dir g) = Inr sub \<and>
          map fst (filter (\<lambda>x. snd x = DirK \<and>
                 existsSync root (path_join (path_join (path_join dir g) (fst x)) ''SKILL.md''))
               sub) = [sub1, sub2] \<longrightarrow>
          (\<exists>skills. detectSkills yp root dir = Inr skills \<and>
             map (\<lambda>s. (name s, path s))
               (filter (\<lambda>s. take (length (path_join dir g)) (path s) = path_join dir g) skills) =
               [(g @ ''-'' @ sub1, path_join (path_join dir g) sub1),
                (g @ ''-'' @ sub2, path_join (path_join dir g) sub2)])) \<and>
         (existsSync root (path_join (path_join dir g) ''SKILL.md'') \<longrightarrow>
          (\<exists>skills. detectSkills yp root dir = Inr skills \<and>
             map (\<lambda>s. (name s, path s))
               (filter (\<lambda>s. take (length (path_join dir g)) (path s) = path_join dir g) skills) =
               [(g, path_join dir g)]))"
proof -
  let ?D = "path_join dir g"
  let ?P = "\<lambda>s. take (length ?D) (path s) = ?D"
  let ?E = "entry_skills yp root dir"
  have vg: "valid_name g" using readdir_valid[OF rd g] by simp
  have cl: "clean ?D" by simp
  from g obtain pre post where es: "es = pre @ (g, DirK) # post"
    by (auto simp: in_set_conv_decomp)
  from readdir_distinct[OF rd] es have "distinct (map fst pre @ g # map fst post)"
    by simp
  then have gp: "g \<notin> set (map fst pre)" and gq: "g \<notin> set (map fst post)"
    by simp_all
  have other: "fst e \<noteq> g" if "e \<in> set pre \<or> e \<in> set post" for e
  proof
    assume "fst e = g"
    with that have "g \<in> set (map fst pre) \<or> g \<in> set (map fst post)"
      by (metis image_eqI list.set_map)
    with gp gq show False by simp
  qed
  have valid: "valid_name (fst e)" if "e \<in> set pre \<or> e \<in> set post" for e
  proof -
    from that es have "e \<in> set es" by auto
    with rd show ?thesis by (rule readdir_valid)
  qed
  have away: "\<not> ?P s" if "e \<in> set pre \<or> e \<in> set post" and "s \<in> set (?E e)" for e s
    using entry_skills_elsewhere[OF that(2) valid[OF that(1)] vg other[OF that(1)]] .
  have pre: "filter ?P (concat (map ?E pre)) = []"
  proof (rule filter_concat_map_empty)
    fix x s assume "x \<in> set pre" "s \<in> set (?E x)"
    then show "\<not> ?P s" using away[of x s] by simp
  qed
  have post: "filter ?P (concat (map ?E post)) = []"
  proof (rule filter_concat_map_empty)
    fix x s assume "x \<in> set post" "s \<in> set (?E x)"
    then show "\<not> ?P s" using away[of x s] by simp
  qed
  have run: "detectSkills yp root dir =
      Inr (concat (map ?E pre) @ ?E (g, DirK) @ concat (map ?E post))"
    using rd readdir_exists[OF rd] es by (simp add: detectSkills_eq)
  have only: "filter ?P (concat (map ?E pre) @ ?E (g, DirK) @ concat (map ?E post)) =
              filter ?P (?E (g, DirK))"
    using pre post by simp
  show ?thesis
  proof (intro conjI impI)
    assume h: "\<not> existsSync root (path_join ?D ''SKILL.md'') \<and>
          readdirSync root ?D = Inr sub \<and>
          map fst (filter (\<lambda>x. snd x = DirK \<and>
                 existsSync root (path_join (path_join ?D (fst x)) ''SKILL.md''))
               sub) = [sub1, sub2]"
    then have shape: "map (\<lambda>s. (name s, path s)) (?E (g, DirK)) =
        [(g @ ''-'' @ sub1, path_join ?D sub1), (g @ ''-'' @ sub2, path_join ?D sub2)]"
      using entry_skills_group[OF vg nu, of root dir sub yp] by simp
    let ?F = "filter (\<lambda>x. snd x = DirK \<and>
                 existsSync root (path_join (path_join ?D (fst x)) ''SKILL.md'')) sub"
    from h have mf: "map fst ?F = [sub1, sub2]" by simp
    have "set (map fst ?F) \<subseteq> fst ` set sub" by auto
    with mf have "sub1 \<in> fst ` set sub" and "sub2 \<in> fst ` set sub" by simp_all
    then obtain x1 x2 where x1: "x1 \<in> set sub" "fst x1 = sub1"
      and x2: "x2 \<in> set sub" "fst x2 = sub2"
      by (metis imageE)
    from h have rdD: "readdirSync root ?D = Inr sub" by simp
    have v1: "valid_name sub1" using readdir_valid[OF rdD x1(1)] x1(2) by simp
    have v2: "valid_name sub2" using readdir_valid[OF rdD x2(1)] x2(2) by simp
    have j: "path_join ?D sub1 = ?D @ [sub1]" "path_join ?D sub2 = ?D @ [sub2]"
      using cl v1 v2 by (simp_all add: path_join_clean_valid)
    have "\<And>s. s \<in> set (?E (g, DirK)) \<Longrightarrow> ?P s"
    proof -
      fix s assume "s \<in> set (?E (g, DirK))"
      then have "(name s, path s) \<in> set (map (\<lambda>s. (name s, path s)) (?E (g, DirK)))"
        by force
      with shape j have "path s = ?D @ [sub1] \<or> path s = ?D @ [sub2]" by auto
      then show "?P s" by auto
    qed
    then have "filter ?P (?E (g, DirK)) = ?E (g, DirK)" by (rule filter_all)
    with run only shape
    show "\<exists>skills. detectSkills yp root dir = Inr skills \<and>
             map (\<lambda>s. (name s, path s)) (filter ?P skills) =
               [(g @ ''-'' @ sub1, path_join ?D sub1), (g @ ''-'' @ sub2, path_join ?D sub2)]"
      by simp
  next
    assume ex: "existsSync root (path_join ?D ''SKILL.md'')"
    have shape: "map (\<lambda>s. (name s, path s)) (?E (g, DirK)) = [(g, ?D)]"
      using vg nu ex by (rule entry_skills_direct)
    have "\<And>s. s \<in> set (?E (g, DirK)) \<Longrightarrow> ?P s"
    proof -
      fix s assume "s \<in> set (?E (g, DirK))"
      then have "(name s, path s) \<in> set (map (\<lambda>s. (name s, path s)) (?E (g, DirK)))"
        by force
      with shape have "path s = ?D" by auto
      then show "?P s" by simp
    qed
    then have "filter ?P (?E (g, DirK)) = ?E (g, DirK)" by (rule filter_all)
    with run only shape
    show "\<exists>skills. detectSkills yp root dir = Inr skills \<and>
             map (\<lambda>s. (name s, path s)) (filter ?P skills) = [(g, ?D)]"
      by simp
  qed
qed

theorem grouping_detection_witness:
  "map (\<lambda>s. (name s, path s))
     (filter (\<lambda>s. take 2 (path s) = [''agents'', ''group''])
        (projr (detectSkills sample_yaml sample_disk [''agents'']))) =
     [(''group-sub1'', [''agents'', ''group'', ''sub1'']),
      (''group-sub2'', [''agents'', ''group'', ''sub2''])] \<and>
   existsSync sample_disk [''agents'', ''plain'', ''inner'', ''SKILL.md''] \<and>
   map (\<lambda>s. (name s, path s))
     (filter (\<lambda>s. take 2 (path s) = [''agents'', ''plain''])
        (projr (detectSkills sample_yaml sample_disk [''agents'']))) =
     [(''plain'', [''agents'', ''plain''])]"
proof -
  have rd: "readdirSync sample_disk [''agents''] =
     Inr [(''linked-skill'', LinkK), (''plain'', DirK), (''_backup'', DirK),
          (''dangling'', LinkK), (''notes.txt'', FileK), (''group'', DirK)]"
    by code_simp
  have g1: "(''group'', DirK) \<in> set [(''linked-skill'', LinkK), (''plain'', DirK),
          (''_backup'', DirK), (''dangling'', LinkK), (''notes.txt'', FileK), (''group'', DirK)]"
    by simp
  have g2: "(''plain'', DirK) \<in> set [(''linked-skill'', LinkK), (''plain'', DirK),
          (''_backup'', DirK), (''dangling'', LinkK), (''notes.txt'', FileK), (''group'', DirK)]"
    by simp
  have nu1: "\<not> startsWith_underscore ''group''" by (simp add: startsWith_underscore_def)
  have nu2: "\<not> startsWith_underscore ''plain''" by (simp add: startsWith_underscore_def)
  have pj: "path_join [''agents''] ''group'' = [''agents'', ''group'']"
    "path_join [''agents''] ''plain'' = [''agents'', ''plain'']"
    "path_join [''agents'', ''group''] ''sub1'' = [''agents'', ''group'', ''sub1'']"
    "path_join [''agents'', ''group''] ''sub2'' = [''agents'', ''group'', ''sub2'']"
    by code_simp+
  have h1: "\<not> existsSync sample_disk (path_join (path_join [''agents''] ''group'') ''SKILL.md'') \<and>
          readdirSync sample_disk (path_join [''agents''] ''group'') =
            Inr [(''sub1'', DirK), (''sub2'', DirK)] \<and>
          map fst (filter (\<lambda>x. snd x = DirK \<and>
                 existsSync sample_disk
                   (path_join (path_join (path_join [''agents''] ''group'') (fst x)) ''SKILL.md''))
               [(''sub1'', DirK), (''sub2'', DirK)]) = [''sub1'', ''sub2'']"
    by code_simp
  have h2: "existsSync sample_disk (path_join (path_join [''agents''] ''plain'') ''SKILL.md'')"
    by code_simp
  have inner: "existsSync sample_disk [''agents'', ''plain'', ''inner'', ''SKILL.md'']"
    by code_simp
  have "\<exists>skills. detectSkills sample_yaml sample_disk [''agents''] = Inr skills \<and>
          map (\<lambda>s. (name s, path s))
            (filter (\<lambda>s. take 2 (path s) = [''agents'', ''group'']) skills) =
          [(''group-sub1'', [''agents'', ''group'', ''sub1'']),
           (''group-sub2'', [''agents'', ''group'', ''sub2''])]"
    using grouping_detection[OF rd g1 nu1, of "[(''sub1'', DirK), (''sub2'', DirK)]"
      "''sub1''" "''sub2''" sample_yaml, THEN conjunct1, THEN mp, OF h1]
    by (simp add: pj numeral_2_eq_2)
  then have 1: "map (\<lambda>s. (name s, path s))
     (filter (\<lambda>s. take 2 (path s) = [''agents'', ''group''])
        (projr (detectSkills sample_yaml sample_disk [''agents'']))) =
     [(''group-sub1'', [''agents'', ''group'', ''sub1'']),
      (''group-sub2'', [''agents'', ''group'', ''sub2''])]"
    by (elim exE conjE) simp
  have "\<exists>skills. detectSkills sample_yaml sample_disk [''agents''] = Inr skills \<and>
          map (\<lambda>s. (name s, path s))
            (filter (\<lambda>s. take 2 (path s) = [''agents'', ''plain'']) skills) =
          [(''plain'', [''agents'', ''plain''])]"
    using grouping_detection[OF rd g2 nu2, of _ _ _ sample_yaml, THEN conjunct2, THEN mp, OF h2]
    by (simp add: pj numeral_2_eq_2)
  then have 2: "map (\<lambda>s. (name s, path s))
     (filter (\<lambda>s. take 2 (path s) = [''agents'', ''plain''])
        (projr (detectSkills sample_yaml sample_disk [''agents'']))) =
     [(''plain'', [''agents'', ''plain''])]"
    by (elim exE conjE) simp
  from 1 inner 2 show ?thesis by simp
qed

text \<open>
  Claim C8. No entry of a scan lies at or below a child of the root whose name starts
  with an underscore, and no entry has a name that starts with one. The directory
  \<^verbatim>\<open>_backup\<close> that the converter creates in a target root is such a child.
\<close>

theorem reserved_prefix_never_classified:
  assumes run: "detectSkills yp root dir = Inr skills" and s: "s \<in> set skills"
    and v: "valid_name n" and u: "startsWith_underscore n"
  shows "\<not> startsWith_underscore (name s) \<and>
         take (length (path_join dir n)) (path s) \<noteq> path_join dir n"
proof -
  from run s obtain es where rd: "readdirSync root dir = Inr es"
    and sk: "skills = concat (map (entry_skills yp root dir) es)"
    by (auto simp: detectSkills_eq split: if_splits sum.splits)
  from s sk obtain e where e: "e \<in> set es" and se: "s \<in> set (entry_skills yp root dir e)"
    by auto
  have ve: "valid_name (fst e)" using rd e by (rule readdir_valid)
  have pn: "path_join dir n = path_normalize dir @ [n]" using v by (rule path_join_valid)
  from entry_skills_mem[OF se ve] have nu: "\<not> startsWith_underscore (fst e)"
    and shape: "name s = fst e \<and> path s = path_normalize dir @ [fst e] \<or>
          (\<exists>m. valid_name m \<and> name s = fst e @ ''-'' @ m \<and>
               path s = path_normalize dir @ [fst e, m])"
    by simp_all
  from nu u have ne: "fst e \<noteq> n" by auto
  from ve have nonempty: "fst e \<noteq> []" by (simp add: valid_name_def)
  from shape show ?thesis
  proof
    assume "name s = fst e \<and> path s = path_normalize dir @ [fst e]"
    with nu ne pn show ?thesis by simp
  next
    assume "\<exists>m. valid_name m \<and> name s = fst e @ ''-'' @ m \<and>
               path s = path_normalize dir @ [fst e, m]"
    then obtain m where nm: "name s = fst e @ ''-'' @ m"
      and pa: "path s = path_normalize dir @ [fst e, m]" by blast
    from nonempty have "take 1 (fst e @ ''-'' @ m) = take 1 (fst e)"
      by (cases "fst e") simp_all
    with nu nm have "\<not> startsWith_underscore (name s)"
      by (simp add: startsWith_underscore_def)
    with pa ne pn show ?thesis by simp
  qed
qed


theorem reserved_prefix_never_classified_witness:
  "existsSync
     (snd (convertSkill (mock_skill ''plain'' [''real'', ''store'']) [''agents'']
             M_copy R_backup 7 sample_disk))
     [''agents'', ''_backup'', ''plain-7'', ''SKILL.md''] \<and>
   map name (projr (detectSkills sample_yaml
     (snd (convertSkill (mock_skill ''plain'' [''real'', ''store'']) [''agents'']
             M_copy R_backup 7 sample_disk)) [''agents''])) =
     [''linked-skill'', ''group-sub1'', ''group-sub2'', ''plain''] \<and>
   (\<not> startsWith_underscore (name (projr (detectSkills sample_yaml
     (snd (convertSkill (mock_skill ''plain'' [''real'', ''store'']) [''agents'']
             M_copy R_backup 7 sample_disk)) [''agents'']) ! 3)) \<and>
    take 2 (path (projr (detectSkills sample_yaml
     (snd (convertSkill (mock_skill ''plain'' [''real'', ''store'']) [''agents'']
             M_copy R_backup 7 sample_disk)) [''agents'']) ! 3)) \<noteq> [''agents'', ''_backup''])"
proof -
  let ?d = "snd (convertSkill (mock_skill ''plain'' [''real'', ''store'']) [''agents'']
             M_copy R_backup 7 sample_disk)"
  let ?r = "detectSkills sample_yaml ?d [''agents'']"
  have ex: "existsSync ?d [''agents'', ''_backup'', ''plain-7'', ''SKILL.md'']" by code_simp
  have ok: "\<not> isl ?r" by code_simp
  then have run: "?r = Inr (projr ?r)" by simp
  have names: "map name (projr ?r) = [''linked-skill'', ''group-sub1'', ''group-sub2'', ''plain'']"
    by code_simp
  have "length (map name (projr ?r)) =
        length [''linked-skill'', ''group-sub1'', ''group-sub2'', ''plain'']"
    by (simp only: names)
  then have "length (projr ?r) = 4" by simp
  then have mem: "projr ?r ! 3 \<in> set (projr ?r)" by simp
  have v: "valid_name ''_backup''" by (simp add: valid_name_def)
  have u: "startsWith_underscore ''_backup''" by (simp add: startsWith_underscore_def)
  have pj: "path_join [''agents''] ''_backup'' = [''agents'', ''_backup'']" by code_simp
  from reserved_prefix_never_classified[OF run mem v u] pj
  have "\<not> startsWith_underscore (name (projr ?r ! 3)) \<and>
        take 2 (path (projr ?r ! 3)) \<noteq> [''agents'', ''_backup'']"
    by (simp add: numeral_2_eq_2)
  with ex names show ?thesis by simp
qed

section \<open>The size of an entry\<close>

lemma node_at_child:
  assumes at: "node_at True root p = Inr (Dir r xs)" and mo: "map_of xs n = Some ch"
    and k: "kind_of ch \<noteq> LinkK" and v: "valid_name n"
  shows "node_at True root (p @ [n]) = Inr ch"
proof -
  from at obtain q where w: "walk True symloop_max root [] p = Inr q"
    and g: "get root q = Some (Dir r xs)"
    by (auto simp: node_at_def resolve_def split: sum.splits option.splits)
  have "walk True symloop_max root [] (p @ [n]) = Inr (q @ [n])"
    using walk_snoc[OF w g mo k v] .
  moreover have "get root (q @ [n]) = Some ch"
    by (simp add: get_snoc g mo)
  ultimately show ?thesis
    by (simp add: node_at_def resolve_def)
qed

lemma entry_bytes_unlisted:
  assumes "readdirSync root p = Inl e"
  shows "entry_bytes root p = 0"
proof (cases "node_at True root p")
  case (Inl x)
  then show ?thesis by (simp add: entry_bytes_def)
next
  case (Inr n)
  with assms show ?thesis
    by (cases n) (simp_all add: entry_bytes_def readdirSync_def split: if_splits)
qed

lemma walkDir_bytes: "clean p \<Longrightarrow> walkDir root p tot = tot + entry_bytes root p"
proof (induction root p tot rule: walkDir.induct)
  case (1 root p tot)
  note cl = \<open>clean p\<close>
  show ?case
  proof (cases "readdirSync root p")
    case (Inl e)
    then have "walkDir root p tot = tot" by (subst walkDir.simps) simp
    with entry_bytes_unlisted[OF Inl] show ?thesis by simp
  next
    case (Inr entries)
    from readdir_listing[OF Inr] obtain xs where
      at: "node_at True root p = Inr (Dir True xs)"
      and ents: "entries = map (\<lambda>e. (fst e, kind_of (snd e))) (listing xs)"
      by blast
    have eb: "entry_bytes root p = sum_list (map (\<lambda>e. tree_bytes (snd e)) (listing xs))"
      by (simp add: entry_bytes_def at)
    define F where "F = (\<lambda>(entry :: string \<times> kind) (acc :: nat \<times> bool).
               if \<not> snd acc then acc
               else if snd entry = DirK
                 then (walkDir root (path_join p (fst entry)) (fst acc), True)
               else if snd entry = FileK
                 then (case statSync root (path_join p (fst entry)) of
                         Inl e \<Rightarrow> (fst acc, False)
                       | Inr st \<Rightarrow> (fst acc + st_size st, True))
               else acc)"
    have one: "F (fst e, kind_of (snd e)) (t, True) = (t + tree_bytes (snd e), True)"
      if mem: "e \<in> set (listing xs)" for e t
    proof -
      from mem have "(fst e, snd e) \<in> set (listing xs)" by simp
      from listing_mem[OF this] have mo: "map_of xs (fst e) = Some (snd e)"
        and v: "valid_name (fst e)" by simp_all
      have pj: "path_join p (fst e) = p @ [fst e]"
        using cl v by (rule path_join_clean_valid)
      have cl': "clean (path_join p (fst e))" by simp
      show ?thesis
      proof (cases "snd e")
        case (File m c)
        then have "node_at True root (p @ [fst e]) = Inr (File m c)"
          using node_at_child[OF at mo _ v] by simp
        then have "statSync root (p @ [fst e]) = Inr (stats_of (File m c))"
          by (simp add: statSync_def)
        with File pj show ?thesis by (simp add: F_def)
      next
        case (Dir r' es')
        then have ch: "node_at True root (p @ [fst e]) = Inr (Dir r' es')"
          using node_at_child[OF at mo _ v] by simp
        have inl: "(fst e, kind_of (snd e)) \<in> set entries"
          using mem ents by force
        have "walkDir root (path_join p (fst e)) t =
              t + entry_bytes root (path_join p (fst e))"
          using "1.IH"[OF Inr inl, of "(t, True)"] Dir cl' by simp
        also have "entry_bytes root (path_join p (fst e)) = tree_bytes (Dir r' es')"
          using ch by (simp add: entry_bytes_def pj)
        finally show ?thesis using Dir by (simp add: F_def)
      next
        case (Link a t')
        then show ?thesis by (simp add: F_def)
      qed
    qed
    have step: "fold F (map (\<lambda>e. (fst e, kind_of (snd e))) ys) (t, True) =
                (t + sum_list (map (\<lambda>e. tree_bytes (snd e)) ys), True)"
      if "set ys \<subseteq> set (listing xs)" for ys t
      using that
    proof (induction ys arbitrary: t)
      case Nil
      then show ?case by simp
    next
      case (Cons e ys)
      then have "e \<in> set (listing xs)" and sub: "set ys \<subseteq> set (listing xs)" by simp_all
      from one[OF this(1), of t] Cons.IH[OF sub, of "t + tree_bytes (snd e)"]
      show ?case by (simp add: add.assoc)
    qed
    have "walkDir root p tot = fst (fold F entries (tot, True))"
      by (subst walkDir.simps) (simp add: Inr F_def)
    also have "\<dots> = tot + sum_list (map (\<lambda>e. tree_bytes (snd e)) (listing xs))"
      unfolding ents using step[of "listing xs" tot] by simp
    finally show ?thesis using eb by simp
  qed
qed

lemma getDirectorySizeKb_bytes:
  "clean p \<Longrightarrow> getDirectorySizeKb root p = (entry_bytes root p + 512) div 1024"
  by (simp add: getDirectorySizeKb_def walkDir_bytes)

lemma analyzeSkill_size:
  assumes "analyzeSkill yp root p = Inr (Some sk)"
  shows "path sk = p \<and> sizeKb sk = getDirectorySizeKb root p"
proof (cases "existsSync root (path_join p ''SKILL.md'')")
  case False
  with assms show ?thesis by (simp add: analyzeSkill_def Let_def)
next
  case True
  show ?thesis
  proof (cases "lstatSync root p")
    case (Inl e)
    with assms True show ?thesis by (simp add: analyzeSkill_def Let_def)
  next
    case (Inr st)
    with assms True show ?thesis by (auto simp add: analyzeSkill_def Let_def)
  qed
qed

lemma nestedLoop_size:
  assumes "\<forall>s \<in> set acc. sizeKb s = getDirectorySizeKb root (path s)"
  shows "\<forall>s \<in> set (snd (nestedLoop yp root sp en nes acc)).
           sizeKb s = getDirectorySizeKb root (path s)"
  using assms
proof (induction nes arbitrary: acc)
  case Nil
  then show ?case by simp
next
  case (Cons e nes)
  show ?case
  proof (cases "snd e \<noteq> DirK")
    case True
    with Cons.IH[OF Cons.prems] show ?thesis by simp
  next
    case False
    show ?thesis
    proof (cases "analyzeSkill yp root (path_join sp (fst e))")
      case (Inl x)
      with False Cons.prems show ?thesis by simp
    next
      case (Inr r)
      show ?thesis
      proof (cases r)
        case None
        with Inr False Cons.IH[OF Cons.prems] show ?thesis by simp
      next
        case (Some sk)
        from analyzeSkill_size[of yp root "path_join sp (fst e)" sk] Inr Some
        have "sizeKb sk = getDirectorySizeKb root (path sk)" by simp
        with Cons.prems
        have "\<forall>s \<in> set (acc @ [sk\<lparr>name := en @ ''-'' @ name sk\<rparr>]).
                sizeKb s = getDirectorySizeKb root (path s)"
          by simp
        from Cons.IH[OF this] Inr Some False show ?thesis by simp
      qed
    qed
  qed
qed

lemma entry_skills_size:
  assumes s: "s \<in> set (entry_skills yp root dir e)"
  shows "sizeKb s = getDirectorySizeKb root (path s)"
proof -
  let ?sp = "path_join dir (fst e)"
  define act where "act = (if snd e = LinkK then realpathSync root ?sp else Inr ?sp)"
  from s have skip: "\<not> ((snd e \<noteq> DirK \<and> snd e \<noteq> LinkK) \<or> startsWith_underscore (fst e))"
    by (auto simp: entry_skills_eq split: if_splits)
  have "entry_skills yp root dir e = (case act of
           Inl x \<Rightarrow> []
         | Inr actualPath \<Rightarrow>
             if existsSync root (path_join actualPath ''SKILL.md'') then
               (case analyzeSkill yp root ?sp of
                  Inl x \<Rightarrow> []
                | Inr None \<Rightarrow> []
                | Inr (Some sk) \<Rightarrow> [sk])
             else
               (case readdirSync root actualPath of
                  Inl x \<Rightarrow> []
                | Inr nestedEntries \<Rightarrow>
                    snd (nestedLoop yp root ?sp (fst e) nestedEntries [])))"
    unfolding act_def by (subst entry_skills_eq) (simp only: skip if_False)
  with s have s': "s \<in> set (case act of
           Inl x \<Rightarrow> []
         | Inr actualPath \<Rightarrow>
             if existsSync root (path_join actualPath ''SKILL.md'') then
               (case analyzeSkill yp root ?sp of
                  Inl x \<Rightarrow> []
                | Inr None \<Rightarrow> []
                | Inr (Some sk) \<Rightarrow> [sk])
             else
               (case readdirSync root actualPath of
                  Inl x \<Rightarrow> []
                | Inr nestedEntries \<Rightarrow>
                    snd (nestedLoop yp root ?sp (fst e) nestedEntries [])))"
    by simp
  then obtain ap where act: "act = Inr ap" by (cases act) auto
  show ?thesis
  proof (cases "existsSync root (path_join ap ''SKILL.md'')")
    case True
    with s' act have "s \<in> set (case analyzeSkill yp root ?sp of
                  Inl x \<Rightarrow> []
                | Inr None \<Rightarrow> []
                | Inr (Some sk) \<Rightarrow> [sk])" by simp
    then have "analyzeSkill yp root ?sp = Inr (Some s)"
      by (cases "analyzeSkill yp root ?sp") (auto split: option.splits)
    from analyzeSkill_size[OF this] show ?thesis by simp
  next
    case False
    with s' act have "s \<in> set (case readdirSync root ap of
                  Inl x \<Rightarrow> []
                | Inr nestedEntries \<Rightarrow>
                    snd (nestedLoop yp root ?sp (fst e) nestedEntries []))" by simp
    then obtain nes where mem: "s \<in> set (snd (nestedLoop yp root ?sp (fst e) nes []))"
      by (cases "readdirSync root ap") auto
    have "\<forall>s \<in> set ([] :: DetectedSkill list). sizeKb s = getDirectorySizeKb root (path s)"
      by simp
    from nestedLoop_size[OF this, of yp ?sp "fst e" nes] mem show ?thesis by blast
  qed
qed

lemma entry_skills_clean:
  assumes s: "s \<in> set (entry_skills yp root dir e)" and v: "valid_name (fst e)"
  shows "clean (path s)"
proof -
  from entry_skills_mem[OF s v]
  have "path s = path_normalize dir @ [fst e] \<or>
        (\<exists>m. valid_name m \<and> path s = path_normalize dir @ [fst e, m])" by blast
  then show ?thesis using v by (auto simp: valid_name_def)
qed

text \<open>
  Claim C7, as it is written, fails: the size field is not a number of bytes. The field
  is \<^verbatim>\<open>sizeKb\<close>, and \<^verbatim>\<open>getDirectorySizeKb\<close> divides the sum of the bytes by 1024 and
  rounds. The entry of the disk \<open>big_disk\<close> holds 1535 bytes that count, and its size
  field is 1.
\<close>

theorem sizeKb_is_bytes_counterexample:
  "map sizeKb (projr (detectSkills sample_yaml big_disk [''skills''])) = [1] \<and>
   entry_bytes big_disk [''skills'', ''big''] = 1535"
  by code_simp

text \<open>
  Claim C7, amended. For every entry of a scan, the size field is the sum of the sizes
  in bytes of the regular files in the tree of the entry, divided by 1024 and rounded
  to the nearest integer, a half upwards. In that sum, links inside the entry are not
  followed and count nothing, and a subdirectory that cannot be read is skipped.
\<close>

theorem sizeKb_is_rounded_kilobytes:
  assumes run: "detectSkills yp root dir = Inr skills" and s: "s \<in> set skills"
  shows "sizeKb s = (entry_bytes root (path s) + 512) div 1024"
proof -
  from run s obtain es where rd: "readdirSync root dir = Inr es"
    and sk: "skills = concat (map (entry_skills yp root dir) es)"
    by (auto simp: detectSkills_eq split: if_splits sum.splits)
  from s sk obtain e where e: "e \<in> set es" and se: "s \<in> set (entry_skills yp root dir e)"
    by auto
  have ve: "valid_name (fst e)" using rd e by (rule readdir_valid)
  have "clean (path s)" using se ve by (rule entry_skills_clean)
  then have "getDirectorySizeKb root (path s) = (entry_bytes root (path s) + 512) div 1024"
    by (rule getDirectorySizeKb_bytes)
  with entry_skills_size[OF se] show ?thesis by simp
qed

theorem sizeKb_is_rounded_kilobytes_witness:
  "path (hd (projr (detectSkills sample_yaml big_disk [''skills'']))) = [''skills'', ''big''] \<and>
   readdirSync big_disk [''skills'', ''big'', ''locked''] = Inl EACCES \<and>
   statSync big_disk [''skills'', ''big'', ''alias'', ''f''] =
     Inr \<lparr>st_kind = FileK, st_size = 4, st_mode = 420\<rparr> \<and>
   entry_bytes big_disk [''skills'', ''big''] = 1535 \<and>
   sizeKb (hd (projr (detectSkills sample_yaml big_disk [''skills'']))) = 1"
proof -
  let ?r = "detectSkills sample_yaml big_disk [''skills'']"
  have p: "map path (projr ?r) = [[''skills'', ''big'']]" by code_simp
  have ok: "\<not> isl ?r" by code_simp
  then have run: "?r = Inr (projr ?r)" by simp
  from p have ne: "projr ?r \<noteq> []" by auto
  then have mem: "hd (projr ?r) \<in> set (projr ?r)" by simp
  from p ne have ph: "path (hd (projr ?r)) = [''skills'', ''big'']"
    by (cases "projr ?r") simp_all
  have b: "entry_bytes big_disk [''skills'', ''big''] = 1535" by code_simp
  have l: "readdirSync big_disk [''skills'', ''big'', ''locked''] = Inl EACCES" by code_simp
  have a: "statSync big_disk [''skills'', ''big'', ''alias'', ''f''] =
     Inr \<lparr>st_kind = FileK, st_size = 4, st_mode = 420\<rparr>" by code_simp
  from sizeKb_is_rounded_kilobytes[OF run mem] ph b
  have "sizeKb (hd (projr ?r)) = 1" by simp
  with ph b l a show ?thesis by simp
qed

section \<open>Removing a link\<close>

lemma map_of_map_update:
  "map_of (map (\<lambda>e. if fst e = c then (fst e, f (snd e)) else e) es) k =
     (if k = c then map_option f (map_of es k) else map_of es k)"
  by (induction es) auto

lemma map_of_del_entry:
  "map_of (del_entry es n) k = (if k = n then None else map_of es k)"
  by (induction es) (auto simp: del_entry_def)

lemma get_below_leaf: "kind_of n \<noteq> DirK \<Longrightarrow> qs \<noteq> [] \<Longrightarrow> get n qs = None"
  by (cases n; cases qs) simp_all

text \<open>
  Removing a link changes nothing but the position of the link: every other position
  holds the node it held.
\<close>

lemma remove_child_frame:
  assumes "get root (P @ [n]) = Some (Link a t)"
  shows "get (remove_child root P n) (P @ [n]) = None \<and>
         (\<forall>q. q \<noteq> P @ [n] \<longrightarrow>
            map_option own (get (remove_child root P n) q) = map_option own (get root q))"
  using assms
proof (induction P arbitrary: root)
  case Nil
  then obtain r es where root: "root = Dir r es" and mo: "map_of es n = Some (Link a t)"
    by (cases root) (auto split: option.splits)
  have rc: "remove_child (Dir r es) [] n = Dir r (del_entry es n)"
    by (simp add: remove_child_def)
  have "map_option own (get (Dir r (del_entry es n)) q) = map_option own (get (Dir r es) q)"
    if "q \<noteq> [n]" for q
  proof (cases q)
    case Nil
    then show ?thesis by simp
  next
    case (Cons c qs)
    show ?thesis
    proof (cases "c = n")
      case True
      with that Cons have "qs \<noteq> []" by simp
      then have "get (Link a t) qs = None" by (cases qs) simp_all
      with True Cons mo show ?thesis by (simp add: map_of_del_entry)
    next
      case False
      with Cons show ?thesis by (simp add: map_of_del_entry)
    qed
  qed
  then show ?case by (simp add: root rc map_of_del_entry)
next
  case (Cons p ps)
  then obtain r es ch where root: "root = Dir r es" and mo: "map_of es p = Some ch"
    and below: "get ch (ps @ [n]) = Some (Link a t)"
    by (cases root) (auto split: option.splits)
  let ?f = "\<lambda>d. case d of Dir r es \<Rightarrow> Dir r (del_entry es n) | File m c \<Rightarrow> d | Link a t \<Rightarrow> d"
  have rc: "remove_child (Dir r es) (p # ps) n =
     Dir r (map (\<lambda>e. if fst e = p then (fst e, remove_child (snd e) ps n) else e) es)"
    by (simp add: remove_child_def)
  have mu: "map_of (map (\<lambda>e. if fst e = p then (fst e, remove_child (snd e) ps n) else e) es) k =
     (if k = p then map_option (\<lambda>x. remove_child x ps n) (map_of es k) else map_of es k)" for k
    using map_of_map_update[of p "\<lambda>x. remove_child x ps n" es k] by simp
  from Cons.IH[OF below] have
    gone: "get (remove_child ch ps n) (ps @ [n]) = None"
    and same: "\<And>q. q \<noteq> ps @ [n] \<Longrightarrow>
       map_option own (get (remove_child ch ps n) q) = map_option own (get ch q)"
    by simp_all
  have "map_option own (get (remove_child root (p # ps) n) q) = map_option own (get root q)"
    if "q \<noteq> (p # ps) @ [n]" for q
  proof (cases q)
    case Nil
    then show ?thesis by (simp add: root rc)
  next
    case (Cons c qs)
    show ?thesis
    proof (cases "c = p")
      case True
      with that Cons have "qs \<noteq> ps @ [n]" by simp
      from same[OF this] True Cons mo show ?thesis
        by (simp add: root rc mu)
    next
      case False
      with Cons show ?thesis by (simp add: root rc mu)
    qed
  qed
  moreover have "get (remove_child root (p # ps) n) ((p # ps) @ [n]) = None"
    using gone mo by (simp add: root rc mu)
  ultimately show ?case by blast
qed

text \<open>
  Claim C10. Let the root of the disk be a directory, let the target path hold a
  symbolic link, and let the early return for a link that is already in place not
  apply. Then the block that handles the existing target under the policy
  \<^verbatim>\<open>overwrite\<close> falls through to the strategy with a disk on which the position of
  the link is empty and every other position holds what it held: the same file, the
  same link, a directory with the same permission. Nothing that the link referred to
  is removed.
\<close>

theorem overwrite_unlinks_only_the_link:
  assumes root: "kind_of root = DirK"
    and st: "lstatSync root (path_join td (name sk)) = Inr st" and lk: "st_kind st = LinkK"
    and ns: "\<not> (mode = M_symlink \<and> isSymlinkTo root (path_join td (name sk)) (path sk))"
  shows "\<exists>L root'. handleExisting sk td mode R_overwrite now root = (Inr None, root') \<and>
           resolve False root (path_join td (name sk)) = Inr L \<and>
           get root' L = None \<and>
           (\<forall>q. q \<noteq> L \<longrightarrow> map_option own (get root' q) = map_option own (get root q))"
proof -
  let ?tp = "path_join td (name sk)"
  from st obtain nd where at: "node_at False root ?tp = Inr nd" and sn: "st = stats_of nd"
    by (auto simp: lstatSync_def split: sum.splits)
  from lk sn obtain a t where nd: "nd = Link a t" by (cases nd) simp_all
  from at nd obtain L where res: "resolve False root ?tp = Inr L"
    and g: "get root L = Some (Link a t)"
    by (auto simp: node_at_def split: sum.splits option.splits)
  have "L \<noteq> []"
  proof
    assume "L = []"
    with g have "root = Link a t" by simp
    with root show False by simp
  qed
  then have L: "L = butlast L @ [last L]" by simp
  with g have g': "get root (butlast L @ [last L]) = Some (Link a t)" by simp
  have ul: "unlinkSync ?tp root = Inr (remove_child root (butlast L) (last L))"
    using res g \<open>L \<noteq> []\<close> by (simp add: unlinkSync_def)
  have te: "targetExists root ?tp" using st by (simp add: targetExists_def)
  have run: "handleExisting sk td mode R_overwrite now root =
             (Inr None, remove_child root (butlast L) (last L))"
    using te ns st lk ul
    by (simp add: handleExisting_def Let_def io_bind_def io_read_def io_write_def io_return_def)
  from remove_child_frame[OF g'] L
  have "get (remove_child root (butlast L) (last L)) L = None"
    and "\<forall>q. q \<noteq> L \<longrightarrow> map_option own (get (remove_child root (butlast L) (last L)) q) =
           map_option own (get root q)"
    by simp_all
  with run res show ?thesis by blast
qed

theorem overwrite_unlinks_only_the_link_witness:
  "realpathSync
     (snd (convertSkill (mock_skill ''plain'' [''agents'', ''plain'']) [''claude'']
             M_symlink R_skip 0 sample_disk))
     [''claude'', ''plain''] = Inr [''agents'', ''plain''] \<and>
   fst (handleExisting (mock_skill ''plain'' [''real'', ''store'']) [''claude''] M_copy
          R_overwrite 0
          (snd (convertSkill (mock_skill ''plain'' [''agents'', ''plain'']) [''claude'']
                  M_symlink R_skip 0 sample_disk))) = Inr None \<and>
   get (snd (handleExisting (mock_skill ''plain'' [''real'', ''store'']) [''claude''] M_copy
          R_overwrite 0
          (snd (convertSkill (mock_skill ''plain'' [''agents'', ''plain'']) [''claude'']
                  M_symlink R_skip 0 sample_disk)))) [''claude'', ''plain''] = None \<and>
   map_option own
     (get (snd (handleExisting (mock_skill ''plain'' [''real'', ''store'']) [''claude''] M_copy
          R_overwrite 0
          (snd (convertSkill (mock_skill ''plain'' [''agents'', ''plain'']) [''claude'']
                  M_symlink R_skip 0 sample_disk)))) [''agents'', ''plain'', ''SKILL.md'']) =
     Some (File 420 ''# Plain'')"
proof -
  let ?d = "snd (convertSkill (mock_skill ''plain'' [''agents'', ''plain'']) [''claude'']
                  M_symlink R_skip 0 sample_disk)"
  let ?sk = "mock_skill ''plain'' [''real'', ''store'']"
  let ?h = "handleExisting ?sk [''claude''] M_copy R_overwrite 0 ?d"
  have rp: "realpathSync ?d [''claude'', ''plain''] = Inr [''agents'', ''plain'']"
    by code_simp
  have k: "kind_of ?d = DirK" by code_simp
  have ls: "lstatSync ?d (path_join [''claude''] (name ?sk)) =
              Inr \<lparr>st_kind = LinkK, st_size = 0, st_mode = 511\<rparr>"
    by code_simp
  have lk: "st_kind \<lparr>st_kind = LinkK, st_size = 0, st_mode = 511\<rparr> = LinkK" by simp
  have ns: "\<not> (M_copy = M_symlink \<and>
               isSymlinkTo ?d (path_join [''claude''] (name ?sk)) (path ?sk))"
    by simp
  have res: "resolve False ?d (path_join [''claude''] (name ?sk)) = Inr [''claude'', ''plain'']"
    by code_simp
  have before: "get ?d [''agents'', ''plain'', ''SKILL.md''] = Some (File 420 ''# Plain'')"
    by code_simp
  from overwrite_unlinks_only_the_link[OF k ls lk ns, of 0]
  obtain L root' where h: "?h = (Inr None, root')"
    and r: "resolve False ?d (path_join [''claude''] (name ?sk)) = Inr L"
    and gone: "get root' L = None"
    and same: "\<forall>q. q \<noteq> L \<longrightarrow> map_option own (get root' q) = map_option own (get ?d q)"
    by (elim exE conjE)
  from r res have L: "L = [''claude'', ''plain'']" by simp
  from h have f: "fst ?h = Inr None" and s: "snd ?h = root'" by simp_all
  from same L have "map_option own (get root' [''agents'', ''plain'', ''SKILL.md'']) =
                    map_option own (get ?d [''agents'', ''plain'', ''SKILL.md''])"
    by simp
  with before have keep: "map_option own (get root' [''agents'', ''plain'', ''SKILL.md'']) =
                    Some (File 420 ''# Plain'')" by simp
  from rp f gone L keep s show ?thesis by simp
qed

section \<open>Linking twice\<close>

lemma own_Dir: "own x = own (Dir r es) \<Longrightarrow> \<exists>es'. x = Dir r es'"
  by (cases x) simp_all

lemma own_File: "own x = own (File m c) \<Longrightarrow> x = File m c"
  by (cases x) simp_all

lemma own_Link: "own x = own (Link a t) \<Longrightarrow> x = Link a t"
  by (cases x) simp_all

text \<open>
  A walk reads of every position only what the position itself holds. A disk on which
  every position that existed holds what it held gives every successful walk again.
\<close>

lemma walk_own:
  "(\<And>p. get root p \<noteq> None \<Longrightarrow>
      map_option own (get root' p) = map_option own (get root p)) \<Longrightarrow>
   get root cur \<noteq> None \<Longrightarrow> walk fl fuel root cur rest = Inr r \<Longrightarrow>
   walk fl fuel root' cur rest = Inr r"
proof (induction fl fuel root cur rest rule: walk.induct)
  case (1 follow fuel root cur)
  then show ?case by simp
next
  case (2 follow fuel root cur c cs)
  note inv = "2.prems"(1)
  note w = "2.prems"(3)
  from w obtain r0 es where d: "get root cur = Some (Dir r0 es)"
    by (auto split: option.splits node.splits)
  from inv[of cur] d obtain x where gx: "get root' cur = Some x" and "own x = own (Dir r0 es)"
    by auto
  then obtain es' where d': "get root' cur = Some (Dir r0 es')"
    using own_Dir by blast
  have child: "\<exists>ch'. map_of es' c = Some ch' \<and> own ch' = own ch"
    if "map_of es c = Some ch" for ch
  proof -
    from that d have g: "get root (cur @ [c]) = Some ch" by (simp add: get_snoc)
    with inv[of "cur @ [c]"] obtain ch' where "get root' (cur @ [c]) = Some ch'"
      and "own ch' = own ch" by auto
    with d' show ?thesis by (simp add: get_snoc)
  qed
  have bl: "get root (butlast cur) \<noteq> None"
    using "2.prems"(2) by (rule get_butlast_exists)
  show ?case
  proof (cases "c = [] \<or> c = ''.''")
    case True
    with w d have "walk follow fuel root cur cs = Inr r" by simp
    from "2.IH"(1)[OF d refl True inv "2.prems"(2) this] True d'
    show ?thesis by simp
  next
    case ndot: False
    show ?thesis
    proof (cases "c = ''..''")
      case True
      with w d ndot have "walk follow fuel root (butlast cur) cs = Inr r" by simp
      from "2.IH"(2)[OF d refl ndot True inv bl this] True ndot d'
      show ?thesis by simp
    next
      case False
      from w d ndot False obtain ch where mo: "map_of es c = Some ch"
        by (auto split: option.splits)
      from child[OF mo] obtain ch' where mo': "map_of es' c = Some ch'"
        and oc: "own ch' = own ch" by blast
      have ex: "get root (cur @ [c]) \<noteq> None" using d mo by (simp add: get_snoc)
      show ?thesis
      proof (cases ch)
        case (File m c')
        with oc have ch': "ch' = File m c'" using own_File by simp
        from w d ndot False mo File have "walk follow fuel root (cur @ [c]) cs = Inr r"
          by simp
        from "2.IH"(3)[OF d refl ndot False mo File inv ex this] ndot False d' mo' ch'
        show ?thesis by simp
      next
        case (Dir r1 es1)
        with oc obtain es1' where ch': "ch' = Dir r1 es1'" using own_Dir by blast
        from w d ndot False mo Dir have "walk follow fuel root (cur @ [c]) cs = Inr r"
          by simp
        from "2.IH"(4)[OF d refl ndot False mo Dir inv ex this] ndot False d' mo' ch'
        show ?thesis by simp
      next
        case (Link a t)
        with oc have ch': "ch' = Link a t" using own_Link by simp
        show ?thesis
        proof (cases "cs = [] \<and> \<not> follow")
          case True
          with w d ndot False mo Link d' mo' ch' show ?thesis by simp
        next
          case nf: False
          from w d ndot False mo Link nf have f0: "fuel \<noteq> 0"
            by (auto split: if_splits)
          from w d ndot False mo Link nf f0
          have w': "walk follow (fuel - 1) root (if a then [] else cur) (t @ cs) = Inr r"
            by (auto split: if_splits)
          have base: "get root (if a then [] else cur) \<noteq> None"
            using "2.prems"(2) by simp
          from "2.IH"(5)[OF d refl ndot False mo Link nf f0 inv base w']
            ndot False d' mo' ch' nf f0
          show ?thesis by auto
        qed
      qed
    qed
  qed
qed

lemma map_of_put_entry:
  "map_of (put_entry es n v) k = (if k = n then Some v else map_of es k)"
  by (induction es) auto

text \<open>
  A new entry under a name that the directory did not have: the entry is there, and
  every position that existed holds what it held.
\<close>

lemma add_child_frame:
  assumes "get root q = Some (Dir r es)" and "map_of es n = None"
  shows "get (add_child root q n v) (q @ [n]) = Some v \<and>
         (\<forall>p. get root p \<noteq> None \<longrightarrow>
            map_option own (get (add_child root q n v) p) = map_option own (get root p))"
  using assms
proof (induction q arbitrary: root)
  case Nil
  then have root: "root = Dir r es" by simp
  have ac: "add_child (Dir r es) [] n v = Dir r (put_entry es n v)"
    by (simp add: add_child_def)
  have "map_option own (get (Dir r (put_entry es n v)) p) = map_option own (get (Dir r es) p)"
    if "get (Dir r es) p \<noteq> None" for p
  proof (cases p)
    case Nil
    then show ?thesis by simp
  next
    case (Cons c ps)
    with that Nil.prems(2) have "c \<noteq> n" by (auto split: option.splits)
    with Cons show ?thesis by (simp add: map_of_put_entry)
  qed
  then show ?case by (simp add: root ac map_of_put_entry)
next
  case (Cons c cs)
  then obtain r0 es0 ch where root: "root = Dir r0 es0" and mo: "map_of es0 c = Some ch"
    and below: "get ch cs = Some (Dir r es)"
    by (cases root) (auto split: option.splits)
  have ac: "add_child (Dir r0 es0) (c # cs) n v =
     Dir r0 (map (\<lambda>e. if fst e = c then (fst e, add_child (snd e) cs n v) else e) es0)"
    by (simp add: add_child_def)
  have mu: "map_of (map (\<lambda>e. if fst e = c then (fst e, add_child (snd e) cs n v) else e) es0) k =
     (if k = c then map_option (\<lambda>x. add_child x cs n v) (map_of es0 k) else map_of es0 k)" for k
    using map_of_map_update[of c "\<lambda>x. add_child x cs n v" es0 k] by simp
  from Cons.IH[OF below Cons.prems(2)] have
    there: "get (add_child ch cs n v) (cs @ [n]) = Some v"
    and same: "\<And>p. get ch p \<noteq> None \<Longrightarrow>
       map_option own (get (add_child ch cs n v) p) = map_option own (get ch p)"
    by simp_all
  have "map_option own (get (add_child root (c # cs) n v) p) = map_option own (get root p)"
    if "get root p \<noteq> None" for p
  proof (cases p)
    case Nil
    then show ?thesis by (simp add: root ac)
  next
    case (Cons k ps)
    show ?thesis
    proof (cases "k = c")
      case True
      with that Cons mo root have "get ch ps \<noteq> None" by simp
      from same[OF this] True Cons mo show ?thesis by (simp add: root ac mu)
    next
      case False
      with Cons show ?thesis by (simp add: root ac mu)
    qed
  qed
  moreover have "get (add_child root (c # cs) n v) ((c # cs) @ [n]) = Some v"
    using there mo by (simp add: root ac mu)
  ultimately show ?case by blast
qed

subsection \<open>A relative link text leads back\<close>

lemma strip_common_split:
  "strip_common a b = (up, down) \<Longrightarrow> \<exists>c. a = c @ up \<and> b = c @ down"
proof (induction a b rule: strip_common.induct)
  case (1 x xs y ys)
  show ?case
  proof (cases "x = y")
    case True
    with 1 obtain c where "xs = c @ up" "ys = c @ down" by auto
    with True have "x # xs = (x # c) @ up \<and> y # ys = (x # c) @ down" by simp
    then show ?thesis by blast
  next
    case False
    with 1 show ?thesis by auto
  qed
qed auto

lemma normalize_from_climb:
  "normalize_from (c @ up) (replicate (length up) ''..'' @ rest) = normalize_from c rest"
proof (induction up rule: rev_induct)
  case Nil
  then show ?case by simp
next
  case (snoc x xs)
  have "replicate (length (xs @ [x])) ''..'' = ''..'' # replicate (length xs) ''..''"
    by simp
  then have "normalize_from (c @ xs @ [x]) (replicate (length (xs @ [x])) ''..'' @ rest) =
        normalize_from (butlast (c @ xs @ [x])) (replicate (length xs) ''..'' @ rest)"
    by simp
  also have "butlast (c @ xs @ [x]) = c @ xs" by (simp add: butlast_append)
  finally show ?case using snoc by simp
qed

lemma resolve_relative:
  "path_resolve2 base (path_relative base to) = path_resolve to"
proof -
  obtain up down where sc: "strip_common (path_resolve base) (path_resolve to) = (up, down)"
    by (cases "strip_common (path_resolve base) (path_resolve to)") auto
  from strip_common_split[OF sc] obtain c where b: "path_resolve base = c @ up"
    and t: "path_resolve to = c @ down" by blast
  have "clean (path_resolve to)" by (simp add: path_resolve_def)
  with t have cd: "clean down" by simp
  have "path_resolve2 base (path_relative base to) =
        normalize_from (c @ up) (replicate (length up) ''..'' @ down)"
    using sc b by (simp add: path_resolve2_def path_relative_def path_resolve_def)
  also have "\<dots> = normalize_from c down" by (rule normalize_from_climb)
  also have "\<dots> = c @ down" using cd by (rule normalize_from_id)
  finally show ?thesis using t by simp
qed

text \<open>A walk that ends in a directory reaches the entry of a name in it, unfollowed.\<close>

lemma walk_snoc_nofollow:
  "walk True fuel root cur rest = Inr q \<Longrightarrow> get root q = Some (Dir r es) \<Longrightarrow>
   map_of es n = Some ch \<Longrightarrow> valid_name n \<Longrightarrow>
   walk False fuel root cur (rest @ [n]) = Inr (q @ [n])"
proof (induction "True" fuel root cur rest rule: walk.induct)
  case (1 fuel root cur)
  then show ?case by (cases ch) (auto simp: valid_name_def)
next
  case (2 fuel root cur c cs)
  then show ?case
    by (auto split: option.splits node.splits if_splits)
qed

text \<open>
  Where linking twice does nothing the second time. The source is not a link, nothing
  is at the target path, the target root exists, and the first conversion in mode
  \<^verbatim>\<open>symlink\<close> succeeds. Then it has linked, and a second conversion in that mode,
  under any policy, changes nothing and returns \<^verbatim>\<open>Already linked\<close>.
\<close>

lemma link_twice_plain_source:
  assumes absent: "\<not> targetExists root (path_join td (name sk))"
    and td: "existsSync root td"
    and src: "lstatSync root (path sk) = Inr st" and nl: "st_kind st \<noteq> LinkK"
    and first: "convertSkill sk td M_symlink cr now root = (Inr r1, root1)"
  shows "success r1 \<and> action r1 = A_symlinked \<and>
         convertSkill sk td M_symlink cr' now' root1 =
           (Inr \<lparr>skill = sk, success = True, action = A_skipped,
                 error = Some ''Already linked'',
                 targetPath = path_join td (name sk)\<rparr>, root1)"
proof -
  let ?tp = "path_join td (name sk)"
  let ?rel = "path_relative (path_dirname ?tp) (path sk)"
  have h: "handleExisting sk td M_symlink cr now root = (Inr None, root)"
    using absent by (simp add: handleExisting_def Let_def)
  have e: "ensureDir td root = (Inr (), root)"
    using td by (simp add: ensureDir_def)
  have a: "actualSourceOf (path sk) root = (Inr (path sk), root)"
    using src nl by (simp add: actualSourceOf_def io_bind_def io_read_def io_return_def)
  from convertSkill_Inr[OF first]
  have "runMode sk td M_symlink root = (Inr r1, root1)"
    using h e by (simp add: convertSkill_try_def io_bind_def)
  then have mk: "io_write (symlinkSync ?rel ?tp) root = (Inr (), root1)"
    and r1: "r1 = \<lparr>skill = sk, success = True, action = A_symlinked, error = None,
                   targetPath = ?tp\<rparr>"
    using a
    by (auto simp: runMode_def Let_def io_bind_def io_return_def createRelativeSymlink_def
        split: sum.splits prod.splits)
  then have sl: "symlinkSync ?rel ?tp root = Inr root1"
    by (auto simp: io_write_def split: sum.splits)
  then obtain q es where ne: "?tp \<noteq> []" and po: "parent_of root ?tp = Inr (q, es)"
    and v: "valid_name (last ?tp)" and fresh: "map_of es (last ?tp) = None"
    and root1: "root1 = add_child root q (last ?tp) (Link (fst ?rel) (snd ?rel))"
    by (auto simp: symlinkSync_def split: if_splits sum.splits)
  from po obtain r where w: "walk True symloop_max root [] (butlast ?tp) = Inr q"
    and g: "get root q = Some (Dir r es)"
    by (auto simp: parent_of_def resolve_def split: sum.splits option.splits node.splits)
  from add_child_frame[OF g fresh, of "Link (fst ?rel) (snd ?rel)"] root1
  have there: "get root1 (q @ [last ?tp]) = Some (Link (fst ?rel) (snd ?rel))"
    and inv: "\<And>p. get root p \<noteq> None \<Longrightarrow>
                map_option own (get root1 p) = map_option own (get root p)"
    by simp_all
  have "get root [] \<noteq> None" by simp
  from walk_own[OF inv this w]
  have w1: "walk True symloop_max root1 [] (butlast ?tp) = Inr q" by simp
  from inv[of q] g obtain es1 where g1: "get root1 q = Some (Dir r es1)"
    using own_Dir by fastforce
  from there g1 have mo1: "map_of es1 (last ?tp) = Some (Link (fst ?rel) (snd ?rel))"
    by (simp add: get_snoc)
  from ne have split: "butlast ?tp @ [last ?tp] = ?tp" by simp
  from walk_snoc_nofollow[OF w1 g1 mo1 v] split
  have "resolve False root1 ?tp = Inr (q @ [last ?tp])"
    by (simp add: resolve_def)
  with there have at: "node_at False root1 ?tp = Inr (Link (fst ?rel) (snd ?rel))"
    by (simp add: node_at_def)
  then have ls: "lstatSync root1 ?tp = Inr (stats_of (Link (fst ?rel) (snd ?rel)))"
    and rl: "readlinkSync root1 ?tp = Inr ?rel"
    by (simp_all add: lstatSync_def readlinkSync_def)
  have same: "path_resolve2 (path_dirname ?tp) ?rel = path_resolve (path sk)"
    by (rule resolve_relative)
  have linked: "isSymlinkTo root1 ?tp (path sk)"
    using ls rl same by (simp add: isSymlinkTo_def Let_def)
  have te: "targetExists root1 ?tp" using ls by (simp add: targetExists_def)
  have "handleExisting sk td M_symlink cr' now' root1 =
          (Inr (Some \<lparr>skill = sk, success = True, action = A_skipped,
                       error = Some ''Already linked'', targetPath = ?tp\<rparr>), root1)"
    using te linked by (simp add: handleExisting_def Let_def)
  then have "convertSkill sk td M_symlink cr' now' root1 =
          (Inr \<lparr>skill = sk, success = True, action = A_skipped,
                 error = Some ''Already linked'', targetPath = ?tp\<rparr>, root1)"
    by (simp add: convertSkill_def convertSkill_try_def io_bind_def io_return_def)
  with r1 show ?thesis by simp
qed

text \<open>
  Claim C2 against the code. \<^verbatim>\<open>convertSkill\<close> links to the real path of a source that
  is itself a link (lines 134 to 138), but \<^verbatim>\<open>isSymlinkTo\<close> compares the target of the
  existing link with the path of the source as given (line 89). For an entry whose path
  is a link the two differ, and the second conversion does not find the link it made.
  On the sample disk, with the entry that the scan returns for \<^verbatim>\<open>linked-skill\<close> and the
  empty target root \<^verbatim>\<open>/claude\<close>: the first conversion links; the second returns
  \<^verbatim>\<open>Already exists\<close> under the policy \<^verbatim>\<open>skip\<close>, and links again under the policy
  \<^verbatim>\<open>overwrite\<close>; it never returns \<^verbatim>\<open>Already linked\<close>.
\<close>

theorem link_twice_linked_source:
  "map name (projr (detectSkills sample_yaml sample_disk [''agents''])) ! 0 = ''linked-skill'' \<and>
   linked_entry = projr (detectSkills sample_yaml sample_disk [''agents'']) ! 0 \<and>
   readdirSync sample_disk [''claude''] = Inr [] \<and>
   map_sum id (\<lambda>r. (success r, action r, error r))
     (fst (convertSkill linked_entry [''claude''] M_symlink R_skip 0 sample_disk)) =
     Inr (True, A_symlinked, None) \<and>
   map_sum id (\<lambda>r. (success r, action r, error r))
     (fst (convertSkill linked_entry [''claude''] M_symlink R_skip 1
        (snd (convertSkill linked_entry [''claude''] M_symlink R_skip 0 sample_disk)))) =
     Inr (True, A_skipped, Some ''Already exists'') \<and>
   map_sum id (\<lambda>r. (success r, action r, error r))
     (fst (convertSkill linked_entry [''claude''] M_symlink R_overwrite 1
        (snd (convertSkill linked_entry [''claude''] M_symlink R_skip 0 sample_disk)))) =
     Inr (True, A_symlinked, None)"
  by code_simp

end
